theory Spec2Isabelle
  imports Complex_Main "HOL-Library.Multiset"
begin

section \<open>JavaScript strings, numbers and arrays\<close>

text \<open>
  Strings of the program are modelled as Isabelle strings: sequences of 8-bit characters,
  read as the code units U+0000 to U+00FF. Numbers of the program (IEEE doubles) are modelled
  as real numbers, with the not-a-number value made explicit where the code can produce it;
  rounding of doubles is not modelled.
\<close>

definition charCode :: "char \<Rightarrow> nat" where
  "charCode c = of_char c"

text \<open>The regular expression class \<open>\w\<close>: \<open>[A-Za-z0-9_]\<close>.\<close>

definition isWordChar :: "char \<Rightarrow> bool" where
  "isWordChar c = (let n = charCode c in
     (48 \<le> n \<and> n \<le> 57) \<or> (65 \<le> n \<and> n \<le> 90) \<or> n = 95 \<or> (97 \<le> n \<and> n \<le> 122))"

text \<open>The class \<open>\s\<close> (white space and line terminators) below U+0100:
  TAB, LF, VT, FF, CR, SPACE and NO-BREAK SPACE.\<close>

definition isSpace :: "char \<Rightarrow> bool" where
  "isSpace c = (let n = charCode c in (9 \<le> n \<and> n \<le> 13) \<or> n = 32 \<or> n = 160)"

definition isUpperCase :: "char \<Rightarrow> bool" where
  "isUpperCase c = (let n = charCode c in
     (65 \<le> n \<and> n \<le> 90) \<or> (192 \<le> n \<and> n \<le> 222 \<and> n \<noteq> 215))"

text \<open>\<open>String.prototype.toLowerCase\<close>: an upper-case letter moves up by 32, which sets
  bit 5 of its code.\<close>

definition toLowerCaseChar :: "char \<Rightarrow> char" where
  "toLowerCaseChar c =
     (if isUpperCase c
      then (case c of Char b0 b1 b2 b3 b4 b5 b6 b7 \<Rightarrow> Char b0 b1 b2 b3 b4 True b6 b7)
      else c)"

definition toLowerCase :: "string \<Rightarrow> string" where
  "toLowerCase s = map toLowerCaseChar s"

text \<open>\<open>String.prototype.trim\<close>.\<close>

definition trim :: "string \<Rightarrow> string" where
  "trim s = rev (dropWhile isSpace (rev (dropWhile isSpace s)))"

text \<open>\<open>String.prototype.startsWith\<close> and \<open>String.prototype.includes\<close>.\<close>

fun startsWith :: "string \<Rightarrow> string \<Rightarrow> bool" where
  "startsWith s [] = True"
| "startsWith [] (p # ps) = False"
| "startsWith (c # cs) (p # ps) = (c = p \<and> startsWith cs ps)"

fun strIncludes :: "string \<Rightarrow> string \<Rightarrow> bool" where
  "strIncludes [] p = (p = [])"
| "strIncludes (c # cs) p = (startsWith (c # cs) p \<or> strIncludes cs p)"

text \<open>\<open>Array.prototype.join\<close> on an array of strings.\<close>

fun joinWith :: "string \<Rightarrow> string list \<Rightarrow> string" where
  "joinWith sep [] = []"
| "joinWith sep [x] = x"
| "joinWith sep (x # y # ys) = x @ sep @ joinWith sep (y # ys)"

text \<open>\<open>split(/\s+/)\<close>: the pieces between maximal runs of white space; a run at either end
  of the string leaves an empty piece there, and the empty string gives one empty piece.\<close>

function splitSpaces :: "string \<Rightarrow> string \<Rightarrow> string list" where
  "splitSpaces cur [] = [cur]"
| "splitSpaces cur (c # cs) =
     (if isSpace c then cur # splitSpaces [] (dropWhile isSpace cs)
      else splitSpaces (cur @ [c]) cs)"
  by pat_completeness auto
termination
  by (relation "measure (\<lambda>(cur, s). length s)")
     (auto simp: le_imp_less_Suc length_dropWhile_le)

text \<open>\<open>split(' ')\<close>: the pieces between single spaces.\<close>

fun splitOnSpace :: "string \<Rightarrow> string \<Rightarrow> string list" where
  "splitOnSpace cur [] = [cur]"
| "splitOnSpace cur (c # cs) =
     (if c = CHR '' '' then cur # splitOnSpace [] cs else splitOnSpace (cur @ [c]) cs)"

text \<open>The decimal rendering of a non-negative integer in a template literal.\<close>

fun digits :: "nat \<Rightarrow> string" where
  "digits n = (if n < 10 then [''0123456789'' ! n]
               else digits (n div 10) @ [''0123456789'' ! (n mod 10)])"

declare digits.simps [simp del]

definition isDigit :: "char \<Rightarrow> bool" where
  "isDigit c = (48 \<le> charCode c \<and> charCode c \<le> 57)"

definition numVal :: "string \<Rightarrow> int" where
  "numVal s = foldl (\<lambda>a c. 10 * a + (int (charCode c) - 48)) 0 s"

text \<open>
  \<open>Array.prototype.sort\<close> with a comparator is stable. \<open>after x y\<close> says that the
  comparator called on \<open>(x, y)\<close> returns a positive number, so that \<open>x\<close> has to stand
  behind \<open>y\<close>; a comparator result of zero or not-a-number leaves the two in their order.
  Where the comparator orders the elements consistently (always, unless a difference is
  not-a-number) the language fixes the result, and it is the one of this insertion sort;
  otherwise the language leaves the order to the implementation.
\<close>

fun insertStable :: "('a \<Rightarrow> 'a \<Rightarrow> bool) \<Rightarrow> 'a \<Rightarrow> 'a list \<Rightarrow> 'a list" where
  "insertStable after x [] = [x]"
| "insertStable after x (y # ys) =
     (if after x y then y # insertStable after x ys else x # y # ys)"

definition sortStable :: "('a \<Rightarrow> 'a \<Rightarrow> bool) \<Rightarrow> 'a list \<Rightarrow> 'a list" where
  "sortStable after xs = foldr (insertStable after) xs []"

section \<open>The keyword extractor (VectorStore.extractKeywords)\<close>

definition stopWords :: "string list" where
  "stopWords =
    [''the'', ''a'', ''an'', ''and'', ''or'', ''but'', ''in'', ''on'', ''at'', ''to'', ''for'',
     ''of'', ''with'', ''by'', ''from'', ''is'', ''are'', ''was'', ''were'', ''be'', ''been'',
     ''being'', ''have'', ''has'', ''had'', ''do'', ''does'', ''did'', ''will'', ''would'',
     ''could'', ''should'', ''may'', ''might'', ''must'', ''shall'', ''can'', ''need'',
     ''it'', ''its'', ''this'', ''that'', ''these'', ''those'', ''i'', ''you'', ''he'', ''she'',
     ''we'', ''they'', ''what'', ''which'', ''who'', ''when'', ''where'', ''why'', ''how'',
     ''all'', ''each'', ''every'', ''both'', ''few'', ''more'', ''most'', ''other'', ''some'',
     ''such'', ''no'', ''nor'', ''not'', ''only'', ''own'', ''same'', ''so'', ''than'', ''too'',
     ''very'', ''just'', ''as'', ''if'', ''then'', ''because'', ''while'', ''although'']"

text \<open>\<open>replace(/[^\w\s]/g, ' ')\<close>.\<close>

definition replaceNonWord :: "string \<Rightarrow> string" where
  "replaceNonWord s = map (\<lambda>c. if \<not> isWordChar c \<and> \<not> isSpace c then CHR '' '' else c) s"

text \<open>The array \<open>words\<close> of extractKeywords.\<close>

definition keywordTokens :: "string \<Rightarrow> string list" where
  "keywordTokens text =
     filter (\<lambda>word. length word > 2 \<and> word \<notin> set stopWords)
       (splitSpaces [] (replaceNonWord (toLowerCase text)))"

text \<open>
  \<open>wordFreq\<close> is an ordinary object created by \<open>{}\<close>. Its own properties are kept in the
  order in which \<open>Object.entries\<close> lists them: the keys that are array indices (canonical
  decimal numerals below \<open>2^32 - 1\<close>) first, in ascending numeric order, then the other keys in
  the order of their creation. A property value is a number or a string.
\<close>

datatype jsval = JNum nat | JStr string

type_synonym jsobject = "(string \<times> jsval) list"

definition isArrayIndex :: "string \<Rightarrow> bool" where
  "isArrayIndex s =
     (s \<noteq> [] \<and> list_all isDigit s \<and> (hd s \<noteq> CHR ''0'' \<or> s = ''0'') \<and> numVal s < 4294967295)"

text \<open>
  The value of \<open>(wordFreq[word] || 0) + 1\<close>. A key that is not an own property is looked up in
  \<open>Object.prototype\<close>; of its property names only \<open>constructor\<close> (a function) and
  \<open>__proto__\<close> (an accessor that returns \<open>Object.prototype\<close>) are written in lower case, and
  adding 1 to either value concatenates strings.
\<close>

definition bumped :: "jsobject \<Rightarrow> string \<Rightarrow> jsval" where
  "bumped obj word =
     (case map_of obj word of
        Some (JNum n) \<Rightarrow> JNum (n + 1)
      | Some (JStr s) \<Rightarrow> (if s = [] then JNum 1 else JStr (s @ ''1''))
      | None \<Rightarrow>
          if word = ''constructor'' then JStr ''function Object() { [native code] }1''
          else if word = ''__proto__'' then JStr ''[object Object]1''
          else JNum 1)"

fun insertIndexKey :: "string \<Rightarrow> jsval \<Rightarrow> jsobject \<Rightarrow> jsobject" where
  "insertIndexKey k v [] = [(k, v)]"
| "insertIndexKey k v ((k', v') # ps) =
     (if isArrayIndex k' \<and> numVal k' < numVal k then (k', v') # insertIndexKey k v ps
      else (k, v) # (k', v') # ps)"

fun updateKey :: "'k \<Rightarrow> 'v \<Rightarrow> ('k \<times> 'v) list \<Rightarrow> ('k \<times> 'v) list" where
  "updateKey k v [] = []"
| "updateKey k v ((k', v') # ps) =
     (if k' = k then (k, v) # ps else (k', v') # updateKey k v ps)"

text \<open>The assignment \<open>wordFreq[word] = v\<close>. Assigning a string to \<open>__proto__\<close> calls the
  inherited setter, which ignores a value that is not an object: no property is created.\<close>

definition setProp :: "jsobject \<Rightarrow> string \<Rightarrow> jsval \<Rightarrow> jsobject" where
  "setProp obj k v =
     (if k = ''__proto__'' then obj
      else if k \<in> fst ` set obj then updateKey k v obj
      else if isArrayIndex k then insertIndexKey k v obj
      else obj @ [(k, v)])"

definition countWords :: "string list \<Rightarrow> jsobject" where
  "countWords ws = foldl (\<lambda>wordFreq word. setProp wordFreq word (bumped wordFreq word)) [] ws"

text \<open>The comparator \<open>(a, b) => b[1] - a[1]\<close> is positive when both frequencies are numbers
  and that of \<open>b\<close> is the larger one; with a string on either side the difference is
  not-a-number.\<close>

fun freqAfter :: "string \<times> jsval \<Rightarrow> string \<times> jsval \<Rightarrow> bool" where
  "freqAfter (ka, JNum a) (kb, JNum b) = (a < b)"
| "freqAfter (ka, va) (kb, vb) = False"

definition extractKeywords :: "string \<Rightarrow> string list" where
  "extractKeywords text =
     map fst (take 20 (sortStable freqAfter (countWords (keywordTokens text))))"

text \<open>
  The extractor as the specification words it: the distinct tokens, sorted by descending
  frequency, ties broken by first appearance in the text, truncated to 20. The sorting is
  that of the library: \<open>sort_key\<close> sorts by ascending key and is stable.
\<close>

fun firstOccurrences :: "'a list \<Rightarrow> 'a list" where
  "firstOccurrences [] = []"
| "firstOccurrences (x # xs) = x # firstOccurrences (filter (\<lambda>y. y \<noteq> x) xs)"

definition spec_extract_keywords :: "string \<Rightarrow> string list" where
  "spec_extract_keywords text =
     (let ws = keywordTokens text
      in take 20 (sort_key (\<lambda>w. - int (count_list ws w)) (firstOccurrences ws)))"

text \<open>
  The extractor with the ties as the frequency object orders its keys: the distinct tokens
  that are array indices first, in ascending numeric order, then the other distinct tokens by
  first appearance; sorted by descending frequency by a stable sort, truncated to 20.
\<close>

definition objectKeyOrder :: "string list \<Rightarrow> string list" where
  "objectKeyOrder ws =
     sort_key numVal (remdups (filter isArrayIndex ws))
       @ firstOccurrences (filter (\<lambda>w. \<not> isArrayIndex w) ws)"

definition keywords_by_key_order :: "string \<Rightarrow> string list" where
  "keywords_by_key_order text =
     (let ws = keywordTokens text
      in take 20 (sort_key (\<lambda>w. - int (count_list ws w)) (objectKeyOrder ws)))"

text \<open>The two parts of the key order, and the object that holds a number for each key of
  a list.\<close>

definition indexPart :: "string list \<Rightarrow> string list" where
  "indexPart ws = sort_key numVal (remdups (filter isArrayIndex ws))"

definition stringPart :: "string list \<Rightarrow> string list" where
  "stringPart ws = firstOccurrences (filter (\<lambda>w. \<not> isArrayIndex w) ws)"

definition counted :: "(string \<Rightarrow> nat) \<Rightarrow> string list \<Rightarrow> jsobject" where
  "counted c ks = map (\<lambda>k. (k, JNum (c k))) ks"

text \<open>Two texts: one with a numeral among its tokens, one without.\<close>

definition numeralText :: string where
  "numeralText = ''The cat and the Cat sat; dogs bark. dogs dogs 123 cat''"

definition plainText :: string where
  "plainText = ''The cat sat; dogs bark. Dogs!''"

section \<open>The chunker (DocumentProcessor)\<close>

record doc_metadata =
  filename :: "string option"
  url :: "string option"
  mtype :: string
  title :: "string option"

record chunk_metadata = doc_metadata +
  chunkIndex :: nat
  charStart :: int
  charEnd :: int

record chunk =
  chunk_id :: string
  content :: string
  metadata :: chunk_metadata

definition newline :: char where
  "newline = CHR 0x0A"

definition carriageReturn :: char where
  "carriageReturn = CHR 0x0D"

text \<open>The constructor: \<open>options.chunkSize || 800\<close> and \<open>options.chunkOverlap || 200\<close>, for
  options that are natural numbers; an option that is absent or 0 gives the default.\<close>

definition optionOr :: "nat option \<Rightarrow> nat \<Rightarrow> nat" where
  "optionOr opt d = (case opt of None \<Rightarrow> d | Some n \<Rightarrow> if n = 0 then d else n)"

record processor =
  chunkSize :: nat
  chunkOverlap :: nat

definition DocumentProcessor :: "nat option \<Rightarrow> nat option \<Rightarrow> processor" where
  "DocumentProcessor sizeOpt overlapOpt =
     \<lparr>chunkSize = optionOr sizeOpt 800, chunkOverlap = optionOr overlapOpt 200\<rparr>"

text \<open>\<open>replace(/\r\n/g, '\n')\<close>.\<close>

fun replaceCRLF :: "string \<Rightarrow> string" where
  "replaceCRLF (c # d # cs) =
     (if c = carriageReturn \<and> d = newline then newline # replaceCRLF cs
      else c # replaceCRLF (d # cs))"
| "replaceCRLF cs = cs"

text \<open>\<open>replace(/\n{3,}/g, '\n\n')\<close>: a maximal run of three or more newlines becomes two.\<close>

function collapseNewlines :: "string \<Rightarrow> string" where
  "collapseNewlines [] = []"
| "collapseNewlines (c # cs) =
     (if c = newline
      then (let run = c # takeWhile (\<lambda>x. x = newline) cs
            in (if length run \<ge> 3 then [newline, newline] else run)
               @ collapseNewlines (dropWhile (\<lambda>x. x = newline) cs))
      else c # collapseNewlines cs)"
  by pat_completeness auto
termination
  by (relation "measure length") (auto simp: le_imp_less_Suc length_dropWhile_le)

definition isSentenceEnd :: "char \<Rightarrow> bool" where
  "isSentenceEnd c = (c = CHR ''.'' \<or> c = CHR ''!'' \<or> c = CHR ''?'')"

text \<open>
  \<open>split(/(?<=[.!?])\s+|\n{2,}/)\<close>, scanning from the left. \<open>afterEnd\<close> says that the
  character before the position is one of \<open>. ! ?\<close> (the lookbehind); \<open>cur\<close> is the piece
  collected since the last separator. At a position the first alternative is tried first, and
  either alternative takes the longest run it can.
\<close>

function splitSentences :: "bool \<Rightarrow> string \<Rightarrow> string \<Rightarrow> string list" where
  "splitSentences afterEnd cur [] = [cur]"
| "splitSentences afterEnd cur (c # cs) =
     (if afterEnd \<and> isSpace c
      then cur # splitSentences False [] (dropWhile isSpace cs)
      else if c = newline \<and> cs \<noteq> [] \<and> hd cs = newline
      then cur # splitSentences False [] (dropWhile (\<lambda>x. x = newline) cs)
      else splitSentences (isSentenceEnd c) (cur @ [c]) cs)"
  by pat_completeness auto
termination
  by (relation "measure (\<lambda>(a, cur, s). length s)")
     (auto simp: le_imp_less_Suc length_dropWhile_le)

definition splitIntoSentences :: "string \<Rightarrow> string list" where
  "splitIntoSentences text =
     filter (\<lambda>s. length s > 0)
       (map trim (splitSentences False [] (collapseNewlines (replaceCRLF text))))"

text \<open>The template \<open>${metadata.filename || metadata.url}\<close>: an absent or empty file name
  gives the URL, and an absent URL is rendered as \<open>undefined\<close>.\<close>

definition sourceName :: "'a doc_metadata_scheme \<Rightarrow> string" where
  "sourceName md =
     (case filename md of
        Some f \<Rightarrow> if f \<noteq> [] then f else (case url md of Some u \<Rightarrow> u | None \<Rightarrow> ''undefined'')
      | None \<Rightarrow> (case url md of Some u \<Rightarrow> u | None \<Rightarrow> ''undefined''))"

text \<open>The object pushed onto \<open>chunks\<close>, at both places of createChunks.\<close>

definition makeChunk :: "processor \<Rightarrow> doc_metadata \<Rightarrow> nat \<Rightarrow> string \<Rightarrow> chunk" where
  "makeChunk p md idx currentChunk =
     \<lparr>chunk_id = sourceName md @ ''-chunk-'' @ digits idx,
      content = trim currentChunk,
      metadata = \<lparr>filename = filename md, url = url md, mtype = mtype md, title = title md,
         chunkIndex = idx,
         charStart = int idx * (int (chunkSize p) - int (chunkOverlap p)),
         charEnd = int idx * (int (chunkSize p) - int (chunkOverlap p)) + int (length currentChunk)\<rparr>\<rparr>"

text \<open>\<open>words.slice(-n)\<close>: the last \<open>n\<close> elements, all of them when \<open>n\<close> is 0 or larger
  than the length.\<close>

definition sliceLast :: "nat \<Rightarrow> 'a list \<Rightarrow> 'a list" where
  "sliceLast n xs = (if n = 0 then xs else drop (length xs - n) xs)"

text \<open>The seed of the next buffer. The product \<open>words.length * (chunkOverlap / chunkSize)\<close> is
  taken exactly; for the defaults (a ratio of 0.25) the doubles of the program are exact too.\<close>

definition overlapSeed :: "processor \<Rightarrow> string \<Rightarrow> string" where
  "overlapSeed p currentChunk =
     (let words = splitOnSpace [] currentChunk;
          overlapWords = nat \<lceil>real (length words) * (real (chunkOverlap p) / real (chunkSize p))\<rceil>
      in joinWith '' '' (sliceLast overlapWords words) @ '' '')"

text \<open>The loop over the sentences; the state is \<open>(chunks, currentChunk, currentLength,
  chunkIdx)\<close>, the last being the variable \<open>chunkIndex\<close>.\<close>

fun chunkLoop :: "processor \<Rightarrow> doc_metadata \<Rightarrow> string list \<Rightarrow>
    chunk list \<times> string \<times> nat \<times> nat \<Rightarrow> chunk list \<times> string \<times> nat \<times> nat" where
  "chunkLoop p md [] st = st"
| "chunkLoop p md (sentence # rest) (chunks, currentChunk, currentLength, chunkIdx) =
     (if currentLength + length sentence > chunkSize p \<and> currentChunk \<noteq> []
      then (let seed = overlapSeed p currentChunk
            in chunkLoop p md rest
                 (chunks @ [makeChunk p md chunkIdx currentChunk],
                  seed @ sentence @ '' '',
                  length seed + (length sentence + 1),
                  chunkIdx + 1))
      else chunkLoop p md rest
             (chunks, currentChunk @ sentence @ '' '', currentLength + (length sentence + 1),
              chunkIdx))"

definition createChunks :: "processor \<Rightarrow> string \<Rightarrow> doc_metadata \<Rightarrow> chunk list" where
  "createChunks p text md =
     (case chunkLoop p md (splitIntoSentences text) ([], [], 0, 0) of
        (chunks, currentChunk, currentLength, chunkIdx) \<Rightarrow>
          if trim currentChunk \<noteq> [] then chunks @ [makeChunk p md chunkIdx currentChunk]
          else chunks)"

section \<open>The vector store (VectorStore)\<close>

text \<open>
  The embedding model is a parameter \<open>embedder\<close> of the operations that call it: a function
  from the text handed to the pipeline to its output vector. A number that can be
  not-a-number is a \<open>jsnum\<close>.
\<close>

datatype jsnum = NaN | Num real

record owned_chunk = chunk +
  docId :: string

text \<open>A chunk of the index; \<open>keywordList\<close> is its property \<open>keywords\<close>.\<close>

record stored_chunk = owned_chunk +
  embedding :: "real list"
  keywordList :: "string list"

record scored_chunk = owned_chunk +
  vectorScore :: jsnum
  keywordScore :: real
  phraseBoost :: real
  score :: jsnum

record document =
  doc_id :: string
  name :: string
  chunkCount :: nat
  addedAt :: string

text \<open>\<open>documents\<close> is a \<open>Map\<close>: its entries in insertion order, one per key.\<close>

record store =
  documents :: "(string \<times> document) list"
  chunks :: "stored_chunk list"

definition newVectorStore :: store where
  "newVectorStore = \<lparr>documents = [], chunks = []\<rparr>"

definition mapHas :: "('k \<times> 'v) list \<Rightarrow> 'k \<Rightarrow> bool" where
  "mapHas m k = (k \<in> fst ` set m)"

definition mapSet :: "('k \<times> 'v) list \<Rightarrow> 'k \<Rightarrow> 'v \<Rightarrow> ('k \<times> 'v) list" where
  "mapSet m k v = (if mapHas m k then updateKey k v m else m @ [(k, v)])"

definition mapDelete :: "('k \<times> 'v) list \<Rightarrow> 'k \<Rightarrow> ('k \<times> 'v) list" where
  "mapDelete m k = filter (\<lambda>e. fst e \<noteq> k) m"

definition generateEmbedding :: "(string \<Rightarrow> real list) \<Rightarrow> string \<Rightarrow> real list" where
  "generateEmbedding embedder text = embedder (take 512 text)"

definition generateEmbeddingsBatch :: "(string \<Rightarrow> real list) \<Rightarrow> string list \<Rightarrow> real list list" where
  "generateEmbeddingsBatch embedder texts = map embedder (map (take 512) texts)"

definition processChunk :: "string \<Rightarrow> chunk \<times> real list \<Rightarrow> stored_chunk" where
  "processChunk d ce =
     (case ce of (c, e) \<Rightarrow>
        \<lparr>chunk_id = chunk_id c, content = content c, metadata = metadata c,
         docId = d, embedding = e, keywordList = extractKeywords (content c)\<rparr>)"

text \<open>The batch loop of addDocument, \<open>batchSize\<close> being 20.\<close>

function processBatches ::
  "(string \<Rightarrow> real list) \<Rightarrow> string \<Rightarrow> chunk list \<Rightarrow> nat \<Rightarrow> stored_chunk list \<Rightarrow> stored_chunk list" where
  "processBatches embedder d cs i processedChunks =
     (if i < length cs
      then (let batch = take 20 (drop i cs);
                embeddings = generateEmbeddingsBatch embedder (map content batch)
            in processBatches embedder d cs (i + 20)
                 (processedChunks @ map (processChunk d) (zip batch embeddings)))
      else processedChunks)"
  by pat_completeness auto
termination
  by (relation "measure (\<lambda>(embedder, d, cs, i, acc). length cs - i)") auto

text \<open>addDocument; \<open>now\<close> is the reading of the clock, \<open>new Date().toISOString()\<close>.\<close>

definition addDocument ::
  "(string \<Rightarrow> real list) \<Rightarrow> string \<Rightarrow> string \<Rightarrow> string \<Rightarrow> chunk list \<Rightarrow> store \<Rightarrow> store" where
  "addDocument embedder now d nm cs s =
     (let processedChunks = processBatches embedder d cs 0 []
      in \<lparr>documents = mapSet (documents s) d
             \<lparr>doc_id = d, name = nm, chunkCount = length processedChunks, addedAt = now\<rparr>,
          chunks = chunks s @ processedChunks\<rparr>)"

text \<open>The loop of cosineSimilarity; the state is \<open>(dotProduct, normA, normB)\<close>.\<close>

definition cosineSums :: "real list \<Rightarrow> real list \<Rightarrow> real \<times> real \<times> real" where
  "cosineSums a b =
     foldl (\<lambda>(dotProduct, normA, normB) i.
              (dotProduct + a ! i * b ! i, normA + a ! i * a ! i, normB + b ! i * b ! i))
       (0, 0, 0) [0..<length a]"

text \<open>
  cosineSimilarity. Where \<open>b\<close> is shorter than \<open>a\<close> the loop reads \<open>undefined\<close> and every sum
  is not-a-number; where the denominator is 0 one of the vectors is zero on the indices of
  \<open>a\<close>, the numerator is 0 too and the quotient is not-a-number.
\<close>

definition cosineSimilarity :: "real list \<Rightarrow> real list \<Rightarrow> jsnum" where
  "cosineSimilarity a b =
     (if length b < length a then NaN
      else (case cosineSums a b of (dotProduct, normA, normB) \<Rightarrow>
              if sqrt normA * sqrt normB = 0 then NaN
              else Num (dotProduct / (sqrt normA * sqrt normB))))"

definition keywordMatch :: "string list \<Rightarrow> string list \<Rightarrow> real" where
  "keywordMatch queryKeywords chunkKeywords =
     (let matches = filter (\<lambda>kw. kw \<in> set chunkKeywords) queryKeywords
      in real (length matches) / real (max (length queryKeywords) 1))"

text \<open>The two phrase checks of hybridSearch, giving the variable \<open>phraseBoost\<close>.\<close>

definition phraseBoostOf :: "string list \<Rightarrow> string \<Rightarrow> real" where
  "phraseBoostOf queryKeywords contentLower =
     (let importantWords = take 5 queryKeywords;
          boost1 = foldl (\<lambda>pb word. if strIncludes contentLower word then pb + 0.05 else pb)
                     0 importantWords
      in if length importantWords \<ge> 2
         then (let twoWordPhrase = joinWith '' '' (take 2 importantWords)
               in if strIncludes contentLower twoWordPhrase then boost1 + 0.1 else boost1)
         else boost1)"

definition combine :: "jsnum \<Rightarrow> real \<Rightarrow> real \<Rightarrow> jsnum" where
  "combine vs ks pb =
     (case vs of NaN \<Rightarrow> NaN | Num v \<Rightarrow> Num (v * 0.6 + ks * 0.25 + min pb 0.15))"

definition scoreChunk :: "real list \<Rightarrow> string list \<Rightarrow> stored_chunk \<Rightarrow> scored_chunk" where
  "scoreChunk queryEmbedding queryKeywords c =
     (let vs = cosineSimilarity queryEmbedding (embedding c);
          ks = keywordMatch queryKeywords (keywordList c);
          pb = phraseBoostOf queryKeywords (toLowerCase (content c))
      in \<lparr>chunk_id = chunk_id c, content = content c, metadata = metadata c, docId = docId c,
          vectorScore = vs, keywordScore = ks, phraseBoost = pb, score = combine vs ks pb\<rparr>)"

text \<open>The comparator \<open>(a, b) => b.score - a.score\<close> is positive when both scores are numbers
  and that of \<open>b\<close> is the larger one.\<close>

definition scoreAfter :: "scored_chunk \<Rightarrow> scored_chunk \<Rightarrow> bool" where
  "scoreAfter a b = (case (score a, score b) of (Num x, Num y) \<Rightarrow> x < y | _ \<Rightarrow> False)"

definition hybridSearch ::
  "(string \<Rightarrow> real list) \<Rightarrow> store \<Rightarrow> string \<Rightarrow> nat \<Rightarrow> scored_chunk list" where
  "hybridSearch embedder s query topK =
     (if length (chunks s) = 0 then []
      else (let queryEmbedding = generateEmbedding embedder query;
                queryKeywords = extractKeywords query;
                results = map (scoreChunk queryEmbedding queryKeywords) (chunks s)
            in take topK (sortStable scoreAfter results)))"

datatype store_error = DocumentNotFound

definition removeDocument :: "string \<Rightarrow> store \<Rightarrow> store_error + store" where
  "removeDocument d s =
     (if \<not> mapHas (documents s) d then Inl DocumentNotFound
      else Inr \<lparr>documents = mapDelete (documents s) d,
                chunks = filter (\<lambda>c. docId c \<noteq> d) (chunks s)\<rparr>)"

definition clear :: "store \<Rightarrow> store" where
  "clear s = \<lparr>documents = [], chunks = []\<rparr>"

definition getDocuments :: "store \<Rightarrow> document list" where
  "getDocuments s = map snd (documents s)"

definition getDocumentCount :: "store \<Rightarrow> nat" where
  "getDocumentCount s = length (documents s)"

definition getChunkCount :: "store \<Rightarrow> nat" where
  "getChunkCount s = length (chunks s)"

definition hasDocuments :: "store \<Rightarrow> bool" where
  "hasDocuments s = (length (chunks s) > 0)"

section \<open>Retrieved chunks in the language-model service (LLMService.generateRAGResponse)\<close>

record message =
  role :: string
  msg_content :: string

text \<open>A citation; \<open>source_id\<close> is its property \<open>id\<close>, \<open>source_content\<close> its property
  \<open>content\<close>, \<open>source\<close> the name and \<open>score_text\<close> its property \<open>score\<close>.\<close>

record source_ref =
  source_id :: nat
  source_content :: string
  source :: string
  score_text :: string
  source_chunkIndex :: nat

text \<open>
  The call \<open>generateResponse(prompt, context, conversationHistory)\<close> reaches a language-model
  backend. It is a parameter \<open>llm\<close>: the answer, or \<open>None\<close> when the call throws. Every
  operation below returns, with its result, the list of the calls it has made.
\<close>

type_synonym llm_call = "string \<times> string option \<times> message list"

type_synonym llm = "string \<Rightarrow> string option \<Rightarrow> message list \<Rightarrow> string option"

datatype chat_error = LLMError

text \<open>\<open>Number.prototype.toFixed(1)\<close>, for numbers below \<open>10^21\<close> in absolute value.\<close>

definition toFixed1 :: "real \<Rightarrow> string" where
  "toFixed1 x =
     (let n = nat \<lfloor>\<bar>x\<bar> * 10 + 1 / 2\<rfloor>
      in (if x < 0 then ''-'' else []) @ digits (n div 10) @ ''.'' @ digits (n mod 10))"

definition scoreText :: "jsnum \<Rightarrow> string" where
  "scoreText sc = (case sc of NaN \<Rightarrow> ''NaN'' | Num x \<Rightarrow> toFixed1 (x * 100)) @ ''%''"

text \<open>\<open>chunk.metadata.filename || chunk.metadata.url || 'Unknown'\<close>.\<close>

definition sourceOrUnknown :: "'a doc_metadata_scheme \<Rightarrow> string" where
  "sourceOrUnknown md =
     (case filename md of
        Some f \<Rightarrow> if f \<noteq> [] then f
                  else (case url md of Some u \<Rightarrow> if u \<noteq> [] then u else ''Unknown''
                        | None \<Rightarrow> ''Unknown'')
      | None \<Rightarrow> (case url md of Some u \<Rightarrow> if u \<noteq> [] then u else ''Unknown''
                  | None \<Rightarrow> ''Unknown''))"

definition contextEntry :: "nat \<times> scored_chunk \<Rightarrow> string" where
  "contextEntry ic =
     (case ic of (i, c) \<Rightarrow>
        ''[Source '' @ digits (i + 1) @ '' - '' @ sourceName (metadata c) @ '']''
          @ [newline] @ content c)"

definition buildContext :: "scored_chunk list \<Rightarrow> string" where
  "buildContext retrievedChunks =
     joinWith ([newline, newline] @ ''---'' @ [newline, newline])
       (map contextEntry (zip [0..<length retrievedChunks] retrievedChunks))"

definition formatSource :: "nat \<times> scored_chunk \<Rightarrow> source_ref" where
  "formatSource ic =
     (case ic of (i, c) \<Rightarrow>
        \<lparr>source_id = i + 1, source_content = content c, source = sourceOrUnknown (metadata c),
         score_text = scoreText (score c), source_chunkIndex = chunkIndex (metadata c)\<rparr>)"

definition formatSources :: "scored_chunk list \<Rightarrow> source_ref list" where
  "formatSources retrievedChunks =
     map formatSource (zip [0..<length retrievedChunks] retrievedChunks)"

definition generateRAGResponse ::
  "llm \<Rightarrow> string \<Rightarrow> scored_chunk list \<Rightarrow> message list \<Rightarrow>
     llm_call list \<times> (chat_error + string \<times> source_ref list)" where
  "generateRAGResponse llm query retrievedChunks conversationHistory =
     (if length retrievedChunks = 0
      then ([], Inr (''I couldn't find any relevant information in the uploaded documents to answer your question.'', []))
      else (let context = buildContext retrievedChunks;
                call = (query, Some context, conversationHistory)
            in case llm query (Some context) conversationHistory of
                 None \<Rightarrow> ([call], Inl LLMError)
               | Some answer \<Rightarrow> ([call], Inr (answer, formatSources retrievedChunks))))"

definition generateGeneralResponse ::
  "llm \<Rightarrow> string \<Rightarrow> message list \<Rightarrow> llm_call list \<times> (chat_error + string \<times> source_ref list)" where
  "generateGeneralResponse llm query conversationHistory =
     (case llm query None conversationHistory of
        None \<Rightarrow> ([(query, None, conversationHistory)], Inl LLMError)
      | Some answer \<Rightarrow> ([(query, None, conversationHistory)], Inr (answer, [])))"

section \<open>The chat router (ChatRouter)\<close>

text \<open>The object a handler returns; an absent \<open>retrievedCount\<close> is \<open>None\<close>, an absent
  \<open>noRelevantResults\<close> is \<open>False\<close>.\<close>

record response =
  answer :: string
  mode :: string
  sources :: "source_ref list"
  retrievedCount :: "nat option"
  noRelevantResults :: bool

definition relevanceThreshold :: real where
  "relevanceThreshold = 0.15"

definition documentKeywords :: "string list" where
  "documentKeywords =
     [''document'', ''file'', ''uploaded'', ''says'', ''mentioned'', ''according to'',
      ''in the'', ''from the'', ''based on'', ''what does'', ''find'', ''search'',
      ''look for'', ''locate'', ''extract'', ''summarize'', ''summary'']"

text \<open>The comparisons \<open>score > t\<close> and \<open>score >= t\<close>: false for not-a-number.\<close>

definition numGreater :: "jsnum \<Rightarrow> real \<Rightarrow> bool" where
  "numGreater x t = (case x of NaN \<Rightarrow> False | Num v \<Rightarrow> v > t)"

definition numAtLeast :: "jsnum \<Rightarrow> real \<Rightarrow> bool" where
  "numAtLeast x t = (case x of NaN \<Rightarrow> False | Num v \<Rightarrow> v \<ge> t)"

definition autoDetectMode :: "(string \<Rightarrow> real list) \<Rightarrow> store \<Rightarrow> string \<Rightarrow> bool \<Rightarrow> string" where
  "autoDetectMode embedder s query hasDocs =
     (if \<not> hasDocs then ''general''
      else (let queryLower = toLowerCase query;
                isDocumentQuery = list_ex (\<lambda>kw. strIncludes queryLower kw) documentKeywords
            in if isDocumentQuery then ''rag''
               else (let results = hybridSearch embedder s query 1
                     in if length results > 0 \<and> numGreater (score (hd results)) relevanceThreshold
                        then ''rag'' else ''general'')))"

definition noRelevantAnswer :: string where
  "noRelevantAnswer = ''I searched through the uploaded documents but couldn't find information directly relevant to your question. Try rephrasing your question or ask something more specific about the document content.''"

definition noDocumentsAnswer :: string where
  "noDocumentsAnswer = ''No documents have been uploaded yet. Please upload documents first to use RAG mode, or switch to General mode for open-ended questions.''"

text \<open>The tail of handleRAGQuery: the response of the service, with \<open>mode\<close> and
  \<open>retrievedCount\<close> set.\<close>

definition ragResponse ::
  "llm_call list \<times> (chat_error + string \<times> source_ref list) \<Rightarrow> nat \<Rightarrow>
     llm_call list \<times> (chat_error + response)" where
  "ragResponse r n =
     (case r of
        (calls, Inl e) \<Rightarrow> (calls, Inl e)
      | (calls, Inr (a, srcs)) \<Rightarrow>
          (calls, Inr \<lparr>answer = a, mode = ''rag'', sources = srcs, retrievedCount = Some n,
                       noRelevantResults = False\<rparr>))"

definition handleRAGQuery ::
  "(string \<Rightarrow> real list) \<Rightarrow> llm \<Rightarrow> store \<Rightarrow> string \<Rightarrow> message list \<Rightarrow>
     llm_call list \<times> (chat_error + response)" where
  "handleRAGQuery embedder llm s query conversationHistory =
     (let retrievedChunks = hybridSearch embedder s query 8;
          relevantChunks = filter (\<lambda>c. numAtLeast (score c) relevanceThreshold) retrievedChunks
      in if length relevantChunks = 0
         then (let fallbackChunks = filter (\<lambda>c. numAtLeast (score c) 0.1) retrievedChunks
               in if length fallbackChunks > 0
                  then ragResponse
                         (generateRAGResponse llm query (take 5 fallbackChunks) conversationHistory)
                         (length fallbackChunks)
                  else ([], Inr \<lparr>answer = noRelevantAnswer, mode = ''rag'', sources = [],
                                  retrievedCount = None, noRelevantResults = True\<rparr>))
         else ragResponse (generateRAGResponse llm query relevantChunks conversationHistory)
                (length relevantChunks))"

definition handleGeneralQuery ::
  "llm \<Rightarrow> string \<Rightarrow> message list \<Rightarrow> llm_call list \<times> (chat_error + response)" where
  "handleGeneralQuery llm query conversationHistory =
     (case generateGeneralResponse llm query conversationHistory of
        (calls, Inl e) \<Rightarrow> (calls, Inl e)
      | (calls, Inr (a, srcs)) \<Rightarrow>
          (calls, Inr \<lparr>answer = a, mode = ''general'', sources = srcs, retrievedCount = None,
                       noRelevantResults = False\<rparr>))"

text \<open>The last statement of route: the handler of the resolved mode.\<close>

definition dispatch ::
  "(string \<Rightarrow> real list) \<Rightarrow> llm \<Rightarrow> store \<Rightarrow> string \<Rightarrow> message list \<Rightarrow> string \<Rightarrow>
     llm_call list \<times> (chat_error + response)" where
  "dispatch embedder llm s query conversationHistory m =
     (if m = ''rag'' then handleRAGQuery embedder llm s query conversationHistory
      else handleGeneralQuery llm query conversationHistory)"

definition route ::
  "(string \<Rightarrow> real list) \<Rightarrow> llm \<Rightarrow> store \<Rightarrow> string \<Rightarrow> string \<Rightarrow> message list \<Rightarrow>
     llm_call list \<times> (chat_error + response)" where
  "route embedder llm s query requestedMode conversationHistory =
     (let hasDocs = hasDocuments s
      in if requestedMode = ''auto''
         then dispatch embedder llm s query conversationHistory
                (autoDetectMode embedder s query hasDocs)
         else if requestedMode = ''rag'' \<and> \<not> hasDocs
         then ([], Inr \<lparr>answer = noDocumentsAnswer, mode = ''error'', sources = [],
                         retrievedCount = None, noRelevantResults = False\<rparr>)
         else dispatch embedder llm s query conversationHistory requestedMode)"

section \<open>Sequences of operations\<close>

text \<open>
  The states of a store are those that its operations produce from the new store. A
  removeDocument that throws leaves the store as it was.
\<close>

datatype store_op =
    Add string string string "chunk list"
  | Remove string
  | Clear

fun applyOp :: "(string \<Rightarrow> real list) \<Rightarrow> store \<Rightarrow> store_op \<Rightarrow> store" where
  "applyOp embedder s (Add now d nm cs) = addDocument embedder now d nm cs s"
| "applyOp embedder s (Remove d) = (case removeDocument d s of Inl e \<Rightarrow> s | Inr s' \<Rightarrow> s')"
| "applyOp embedder s Clear = clear s"

definition run :: "(string \<Rightarrow> real list) \<Rightarrow> store_op list \<Rightarrow> store" where
  "run embedder ops = foldl (applyOp embedder) newVectorStore ops"

text \<open>
  The requests of the server that change the store. An upload carries the clock reading, the
  identifier drawn for the document, the name of the file as the client gave it and the text
  extracted from the file; a URL ingestion carries the clock reading, the identifier, the URL
  and the text and title of the fetched page. \<open>extname\<close> is the library function
  \<open>path.extname\<close>. The server builds its processor with the defaults.
\<close>

datatype request =
    Upload string string string string
  | IngestUrl string string string string string
  | Delete string
  | ClearAll

datatype ingest_error = UnsupportedFileType string | UrlRequired

definition supportedTypes :: "string list" where
  "supportedTypes =
     [''.pdf'', ''.docx'', ''.xlsx'', ''.xls'', ''.pptx'', ''.txt'', ''.md'', ''.markdown'', ''.csv'']"

definition processFile ::
  "(string \<Rightarrow> string) \<Rightarrow> processor \<Rightarrow> string \<Rightarrow> string \<Rightarrow> ingest_error + chunk list" where
  "processFile extname p text originalName =
     (let ext = toLowerCase (extname originalName)
      in if ext \<in> set supportedTypes
         then Inr (createChunks p text
                    \<lparr>filename = Some originalName, url = None, mtype = ext, title = None\<rparr>)
         else Inl (UnsupportedFileType ext))"

text \<open>\<open>replace(/\s+/g, ' ')\<close>; the \<open>replace(/\n+/g, '\n')\<close> after it finds no newline.\<close>

function collapseSpaces :: "string \<Rightarrow> string" where
  "collapseSpaces [] = []"
| "collapseSpaces (c # cs) =
     (if isSpace c then CHR '' '' # collapseSpaces (dropWhile isSpace cs)
      else c # collapseSpaces cs)"
  by pat_completeness auto
termination
  by (relation "measure length") (auto simp: le_imp_less_Suc length_dropWhile_le)

definition processUrl :: "processor \<Rightarrow> string \<Rightarrow> string \<Rightarrow> string \<Rightarrow> chunk list" where
  "processUrl p u pageText pageTitle =
     createChunks p (trim (collapseSpaces pageText))
       \<lparr>filename = None, url = Some u, mtype = ''webpage'',
        title = Some (if pageTitle \<noteq> [] then pageTitle else u)\<rparr>"

fun serverStep :: "(string \<Rightarrow> string) \<Rightarrow> (string \<Rightarrow> real list) \<Rightarrow> store \<Rightarrow> request \<Rightarrow> store" where
  "serverStep extname embedder s (Upload now d originalName text) =
     (case processFile extname (DocumentProcessor None None) text originalName of
        Inl e \<Rightarrow> s
      | Inr cs \<Rightarrow> addDocument embedder now d originalName cs s)"
| "serverStep extname embedder s (IngestUrl now d u pageText pageTitle) =
     (if u = [] then s
      else addDocument embedder now d u
             (processUrl (DocumentProcessor None None) u pageText pageTitle) s)"
| "serverStep extname embedder s (Delete d) =
     (case removeDocument d s of Inl e \<Rightarrow> s | Inr s' \<Rightarrow> s')"
| "serverStep extname embedder s ClearAll = clear s"

definition serve ::
  "(string \<Rightarrow> string) \<Rightarrow> (string \<Rightarrow> real list) \<Rightarrow> request list \<Rightarrow> store" where
  "serve extname embedder reqs = foldl (serverStep extname embedder) newVectorStore reqs"

section \<open>Hybrid scoring as the specification words it\<close>

text \<open>
  The keyword score: the number of query keywords contained in the chunk's keyword list,
  over the number of query keywords or 1.
\<close>

definition spec_keyword_score :: "string list \<Rightarrow> string list \<Rightarrow> real" where
  "spec_keyword_score q_kw c_kw =
     real (card (set q_kw \<inter> set c_kw)) / real (max (length q_kw) 1)"

text \<open>
  The phrase boost: 0.05 for each of the first five query keywords that occurs in the
  lower-cased content, and 0.10 more if the phrase of the first two query keywords occurs.
\<close>

definition spec_phrase_boost :: "string list \<Rightarrow> string \<Rightarrow> real" where
  "spec_phrase_boost q_kw contentLower =
     0.05 * real (length (filter (\<lambda>w. strIncludes contentLower w) (take 5 q_kw)))
     + (if length q_kw \<ge> 2 \<and> strIncludes contentLower (q_kw ! 0 @ '' '' @ q_kw ! 1)
        then 0.10 else 0)"

text \<open>The combined score, the boost clamped to 0.15.\<close>

definition spec_score :: "real \<Rightarrow> real \<Rightarrow> real \<Rightarrow> real" where
  "spec_score vector_score keyword_score phrase_boost =
     0.60 * vector_score + 0.25 * keyword_score + min phrase_boost 0.15"

definition numValue :: "jsnum \<Rightarrow> real" where
  "numValue x = (case x of NaN \<Rightarrow> 0 | Num v \<Rightarrow> v)"

definition spec_scored_chunk :: "real list \<Rightarrow> string list \<Rightarrow> stored_chunk \<Rightarrow> scored_chunk" where
  "spec_scored_chunk q_emb q_kw c =
     \<lparr>chunk_id = chunk_id c, content = content c, metadata = metadata c, docId = docId c,
      vectorScore = cosineSimilarity q_emb (embedding c),
      keywordScore = spec_keyword_score q_kw (keywordList c),
      phraseBoost = spec_phrase_boost q_kw (toLowerCase (content c)),
      score = Num (spec_score (numValue (cosineSimilarity q_emb (embedding c)))
                (spec_keyword_score q_kw (keywordList c))
                (spec_phrase_boost q_kw (toLowerCase (content c))))\<rparr>"

text \<open>
  The ranking: the scored chunks sorted by descending score, ties in the order of the
  index. \<open>sort_key\<close> sorts by ascending key and is stable, so the key is the negated score.
\<close>

definition spec_ranking :: "(string \<Rightarrow> real list) \<Rightarrow> store \<Rightarrow> string \<Rightarrow> scored_chunk list" where
  "spec_ranking embedder s query =
     sort_key (\<lambda>r. - numValue (score r))
       (map (spec_scored_chunk (embedder (take 512 query)) (extractKeywords query)) (chunks s))"

definition spec_hybrid_search ::
  "(string \<Rightarrow> real list) \<Rightarrow> store \<Rightarrow> string \<Rightarrow> nat \<Rightarrow> scored_chunk list" where
  "spec_hybrid_search embedder s query k = take k (spec_ranking embedder s query)"

text \<open>
  What the embedding model provides: for the query a vector that is not zero, and for every
  chunk of the index a vector of the same dimension that is not zero.
\<close>

definition nonZero :: "real list \<Rightarrow> bool" where
  "nonZero v = list_ex (\<lambda>x. x \<noteq> 0) v"

definition embeddingsFit :: "real list \<Rightarrow> store \<Rightarrow> bool" where
  "embeddingsFit q_emb s =
     (nonZero q_emb
      \<and> list_all (\<lambda>c. length (embedding c) = length q_emb \<and> nonZero (embedding c)) (chunks s))"



section \<open>Checks on a store, and an example\<close>

text \<open>The two halves of the invariant between registry and index, as checks on a store;
  the third asks for chunks only where the recorded chunk count is not 0.\<close>

definition chunksHaveDocuments :: "store \<Rightarrow> bool" where
  "chunksHaveDocuments s = list_all (\<lambda>c. mapHas (documents s) (docId c)) (chunks s)"

definition documentsHaveChunks :: "store \<Rightarrow> bool" where
  "documentsHaveChunks s =
     list_all (\<lambda>e. list_ex (\<lambda>c. docId c = fst e) (chunks s)) (documents s)"

definition countedDocumentsHaveChunks :: "store \<Rightarrow> bool" where
  "countedDocumentsHaveChunks s =
     list_all (\<lambda>e. chunkCount (snd e) > 0 \<longrightarrow> list_ex (\<lambda>c. docId c = fst e) (chunks s))
       (documents s)"

definition exampleChunk :: stored_chunk where
  "exampleChunk =
     \<lparr>chunk_id = ''a.txt-chunk-0'', content = ''Cats purr.'',
      metadata = \<lparr>filename = Some ''a.txt'', url = None, mtype = ''.txt'', title = None,
         chunkIndex = 0, charStart = 0, charEnd = 11\<rparr>,
      docId = ''d1'', embedding = [1, 0], keywordList = [''cats'', ''purr'']\<rparr>"

definition exampleStore :: store where
  "exampleStore =
     \<lparr>documents = [(''d1'', \<lparr>doc_id = ''d1'', name = ''a.txt'', chunkCount = 1, addedAt = ''t''\<rparr>)],
      chunks = [exampleChunk]\<rparr>"


definition exampleInput :: chunk where
  "exampleInput =
     \<lparr>chunk_id = ''a.txt-chunk-0'', content = ''Cats purr.'',
      metadata = \<lparr>filename = Some ''a.txt'', url = None, mtype = ''.txt'', title = None,
         chunkIndex = 0, charStart = 0, charEnd = 11\<rparr>\<rparr>"

definition exampleOps :: "store_op list" where
  "exampleOps =
     [Add ''t1'' ''d1'' ''a.txt'' [exampleInput],
      Add ''t2'' ''d2'' ''a.txt'' [exampleInput],
      Remove ''d1'',
      Add ''t3'' ''d3'' ''empty.txt'' []]"

text \<open>An index of three chunks, the second and the third alike.\<close>

definition exampleIndex :: store where
  "exampleIndex =
     \<lparr>documents =
        [(''d0'', \<lparr>doc_id = ''d0'', name = ''z.txt'', chunkCount = 1, addedAt = ''t''\<rparr>),
         (''d1'', \<lparr>doc_id = ''d1'', name = ''a.txt'', chunkCount = 1, addedAt = ''t''\<rparr>),
         (''d2'', \<lparr>doc_id = ''d2'', name = ''a.txt'', chunkCount = 1, addedAt = ''t''\<rparr>)],
      chunks =
        [\<lparr>chunk_id = ''z.txt-chunk-0'', content = ''Dogs bark.'',
          metadata = \<lparr>filename = Some ''z.txt'', url = None, mtype = ''.txt'', title = None,
             chunkIndex = 0, charStart = 0, charEnd = 11\<rparr>,
          docId = ''d0'', embedding = [0, 1], keywordList = [''dogs'', ''bark'']\<rparr>,
         exampleChunk,
         exampleChunk\<lparr>docId := ''d2''\<rparr>]\<rparr>"

text \<open>The identifier of a chunk is built from the source name and the chunk index of its
  metadata.\<close>

definition wellNamed :: "'a chunk_scheme \<Rightarrow> bool" where
  "wellNamed c =
     (chunk_id c = sourceName (metadata c) @ ''-chunk-'' @ digits (chunkIndex (metadata c)))"

text \<open>Two uploads of files with one name, and two uploads of files with different names.\<close>

definition sameNameUploads :: "request list" where
  "sameNameUploads =
     [Upload ''t1'' ''d1'' ''a.txt'' ''Cats purr.'', Upload ''t2'' ''d2'' ''a.txt'' ''Dogs bark.'']"

definition exampleUploads :: "request list" where
  "exampleUploads =
     [Upload ''t1'' ''d1'' ''a.txt'' ''Cats purr.'', Upload ''t2'' ''d2'' ''b.txt'' ''Dogs bark.'']"

text \<open>A string is trimmed when it neither starts nor ends with white space.\<close>

definition trimmed :: "string \<Rightarrow> bool" where
  "trimmed s = (s = [] \<or> (\<not> isSpace (hd s) \<and> \<not> isSpace (last s)))"

text \<open>What claim C9 states for a chunk.\<close>

definition withinChunkSize :: "processor \<Rightarrow> 'a chunk_scheme \<Rightarrow> bool" where
  "withinChunkSize p c = (trimmed (content c) \<and> length (content c) \<le> chunkSize p)"

definition exampleMetadata :: doc_metadata where
  "exampleMetadata = \<lparr>filename = Some ''a.txt'', url = None, mtype = ''.txt'', title = None\<rparr>"

declare processBatches.simps [simp del]

lemma zip_map_self: "zip xs (map f xs) = map (\<lambda>x. (x, f x)) xs"
  by (induction xs) auto

lemma processBatches_acc:
  "processBatches embedder d cs i acc =
     acc @ map (\<lambda>c. processChunk d (c, embedder (take 512 (content c)))) (drop i cs)"
proof (induction embedder d cs i acc rule: processBatches.induct)
  case (1 embedder d cs i acc)
  show ?case
  proof (cases "i < length cs")
    case True
    let ?f = "\<lambda>c. processChunk d (c, embedder (take 512 (content c)))"
    have split: "drop i cs = take 20 (drop i cs) @ drop (i + 20) cs"
      by (metis add.commute append_take_drop_id drop_drop)
    have batch: "map (processChunk d)
        (zip (take 20 (drop i cs))
           (generateEmbeddingsBatch embedder (map content (take 20 (drop i cs)))))
        = map ?f (take 20 (drop i cs))"
      by (simp add: generateEmbeddingsBatch_def zip_map_self comp_def)
    have "processBatches embedder d cs i acc =
        processBatches embedder d cs (i + 20) (acc @ map ?f (take 20 (drop i cs)))"
      using True batch by (subst processBatches.simps) (simp add: Let_def)
    also have "\<dots> = (acc @ map ?f (take 20 (drop i cs))) @ map ?f (drop (i + 20) cs)"
      using "1.IH" [OF True refl refl] batch by simp
    also have "\<dots> = acc @ map ?f (drop i cs)"
      using arg_cong [OF split, of "map ?f"] by simp
    finally show ?thesis .
  next
    case False
    then show ?thesis by (subst processBatches.simps) simp
  qed
qed

lemma processBatches_eq:
  "processBatches embedder d cs 0 [] =
     map (\<lambda>c. processChunk d (c, embedder (take 512 (content c)))) cs"
  by (simp add: processBatches_acc)

subsection \<open>Maps\<close>

lemma map_fst_updateKey: "map fst (updateKey k v m) = map fst m"
  by (induction m) auto

lemma set_updateKey_subset: "set (updateKey k v m) \<subseteq> insert (k, v) (set m)"
  by (induction m) (auto split: if_splits)

lemma updateKey_entry: "k \<in> fst ` set m \<Longrightarrow> (k, v) \<in> set (updateKey k v m)"
  by (induction m) (force split: if_splits)+

lemma keys_mapSet: "fst ` set (mapSet m k v) = insert k (fst ` set m)"
proof (cases "mapHas m k")
  case True
  have "fst ` set (updateKey k v m) = set (map fst (updateKey k v m))" by simp
  also have "\<dots> = fst ` set m" by (simp add: map_fst_updateKey)
  finally show ?thesis using True by (auto simp: mapSet_def mapHas_def)
next
  case False
  then show ?thesis by (simp add: mapSet_def)
qed

lemma distinct_mapSet:
  "distinct (map fst m) \<Longrightarrow> distinct (map fst (mapSet m k v))"
  by (auto simp: mapSet_def mapHas_def map_fst_updateKey)

lemma set_mapSet_subset: "set (mapSet m k v) \<subseteq> insert (k, v) (set m)"
  using set_updateKey_subset [of k v m] by (auto simp: mapSet_def)

lemma mapSet_entry: "(k, v) \<in> set (mapSet m k v)"
proof (cases "mapHas m k")
  case True
  then have "(k, v) \<in> set (updateKey k v m)"
    by (simp add: mapHas_def updateKey_entry)
  then show ?thesis using True by (simp add: mapSet_def)
next
  case False
  then show ?thesis by (simp add: mapSet_def)
qed

lemma mapSet_other:
  "(k', v') \<in> set (mapSet m k v) \<Longrightarrow> k' \<noteq> k \<Longrightarrow> (k', v') \<in> set m"
  using set_mapSet_subset [of m k v] by auto

lemma distinct_mapDelete:
  "distinct (map fst m) \<Longrightarrow> distinct (map fst (mapDelete m k))"
  by (simp add: mapDelete_def distinct_map_filter)

lemma length_mapDelete:
  "distinct (map fst m) \<Longrightarrow> mapHas m k \<Longrightarrow> length (mapDelete m k) + 1 = length m"
  unfolding mapDelete_def mapHas_def
proof (induction m)
  case Nil
  then show ?case by simp
next
  case (Cons e m)
  show ?case
  proof (cases "fst e = k")
    case True
    then have "k \<notin> fst ` set m" using Cons.prems(1) by auto
    then have "filter (\<lambda>e. fst e \<noteq> k) m = m"
      by (auto simp: filter_id_conv)
    then show ?thesis using True by simp
  next
    case False
    then show ?thesis using Cons by auto
  qed
qed

lemma mapHas_mapDelete: "\<not> mapHas (mapDelete m k) k"
  by (auto simp: mapHas_def mapDelete_def)

subsection \<open>The store\<close>

lemma chunks_addDocument:
  "chunks (addDocument embedder now d nm cs s) =
     chunks s @ map (\<lambda>c. processChunk d (c, embedder (take 512 (content c)))) cs"
  by (simp add: addDocument_def processBatches_eq)

lemma documents_addDocument:
  "documents (addDocument embedder now d nm cs s) =
     mapSet (documents s) d \<lparr>doc_id = d, name = nm, chunkCount = length cs, addedAt = now\<rparr>"
  by (simp add: addDocument_def processBatches_eq)

lemma docId_processChunk: "docId (processChunk d (c, e)) = d"
  by (simp add: processChunk_def)

lemma run_snoc: "run embedder (ops @ [x]) = applyOp embedder (run embedder ops) x"
  by (simp add: run_def)

lemma run_Nil: "run embedder [] = newVectorStore"
  by (simp add: run_def)

lemma distinct_applyOp:
  "distinct (map fst (documents s)) \<Longrightarrow> distinct (map fst (documents (applyOp embedder s x)))"
  by (cases x)
     (auto simp: documents_addDocument distinct_mapSet removeDocument_def distinct_mapDelete
        clear_def)

lemma distinct_documents_run: "distinct (map fst (documents (run embedder ops)))"
  by (induction ops rule: rev_induct)
     (simp_all add: run_Nil run_snoc newVectorStore_def distinct_applyOp)

subsection \<open>Sorting\<close>

lemma mset_insertStable: "mset (insertStable after x ys) = add_mset x (mset ys)"
  by (induction ys) auto

lemma mset_sortStable: "mset (sortStable after xs) = mset xs"
  by (induction xs) (auto simp: sortStable_def mset_insertStable)

lemma length_sortStable: "length (sortStable after xs) = length xs"
  using mset_sortStable [of after xs] by (metis size_mset)


lemma insertStable_insort_key:
  "\<forall>y \<in> set ys. after x y = (\<not> f x \<le> f y) \<Longrightarrow> insertStable after x ys = insort_key f x ys"
  by (induction ys) auto

lemma sortStable_sort_key:
  "\<forall>x \<in> set xs. \<forall>y \<in> set xs. after x y = (\<not> f x \<le> f y) \<Longrightarrow>
     sortStable after xs = sort_key f xs"
proof (induction xs)
  case Nil
  then show ?case by (simp add: sortStable_def)
next
  case (Cons x xs)
  have ih: "sortStable after xs = sort_key f xs" using Cons by simp
  have "insertStable after x (sort_key f xs) = insort_key f x (sort_key f xs)"
    using Cons.prems by (intro insertStable_insort_key) simp
  then show ?case using ih by (simp add: sortStable_def)
qed

section \<open>Scores\<close>

lemma cauchy_schwarz_sum:
  fixes x y :: "nat \<Rightarrow> real"
  shows "(\<Sum>i<n. x i * y i)\<^sup>2 \<le> (\<Sum>i<n. x i * x i) * (\<Sum>i<n. y i * y i)"
proof (induction n)
  case 0
  show ?case by simp
next
  case (Suc n)
  define D A B a b where "D = (\<Sum>i<n. x i * y i)" and "A = (\<Sum>i<n. x i * x i)"
    and "B = (\<Sum>i<n. y i * y i)" and "a = x n" and "b = y n"
  have A: "0 \<le> A" and B: "0 \<le> B" by (simp_all add: A_def B_def sum_nonneg)
  have IH: "D\<^sup>2 \<le> A * B" using Suc.IH by (simp add: D_def A_def B_def)
  define u v where "u = A * b\<^sup>2" and "v = B * a\<^sup>2"
  have u: "0 \<le> u" and v: "0 \<le> v" using A B by (simp_all add: u_def v_def)
  have "(2 * D * a * b)\<^sup>2 = 4 * D\<^sup>2 * (a\<^sup>2 * b\<^sup>2)"
    by (simp add: power_mult_distrib)
  also have "\<dots> \<le> 4 * (A * B) * (a\<^sup>2 * b\<^sup>2)"
    using IH by (simp add: mult_right_mono)
  also have "\<dots> = 4 * u * v" by (simp add: u_def v_def)
  also have "\<dots> \<le> (u + v)\<^sup>2"
  proof -
    have "0 \<le> (u - v)\<^sup>2" by simp
    also have "(u - v)\<^sup>2 = (u + v)\<^sup>2 - 4 * u * v" by algebra
    finally show ?thesis by simp
  qed
  finally have sq: "(2 * D * a * b)\<^sup>2 \<le> (u + v)\<^sup>2" .
  have "0 \<le> u + v" using u v by simp
  then have "2 * D * a * b \<le> u + v"
    by (rule power2_le_imp_le [OF sq])
  moreover have "(A + a * a) * (B + b * b) - (D + a * b)\<^sup>2 =
      (A * B - D\<^sup>2) + (u + v - 2 * D * a * b)"
    unfolding u_def v_def by algebra
  ultimately have "(D + a * b)\<^sup>2 \<le> (A + a * a) * (B + b * b)"
    using IH by linarith
  then show ?case by (simp add: D_def A_def B_def a_def b_def)
qed

lemma cosineSums_sum:
  "cosineSums a b =
     (\<Sum>i<length a. a ! i * b ! i, \<Sum>i<length a. a ! i * a ! i, \<Sum>i<length a. b ! i * b ! i)"
proof -
  have "foldl (\<lambda>(dotProduct, normA, normB) i.
              (dotProduct + a ! i * b ! i, normA + a ! i * a ! i, normB + b ! i * b ! i))
       (0, 0, 0) [0..<n] =
     (\<Sum>i<n. a ! i * b ! i, \<Sum>i<n. a ! i * a ! i, \<Sum>i<n. b ! i * b ! i)" for n
    by (induction n) simp_all
  then show ?thesis by (simp add: cosineSums_def)
qed

lemma norm_pos:
  fixes v :: "real list"
  assumes "nonZero v" "n = length v"
  shows "0 < (\<Sum>i<n. v ! i * v ! i)"
proof -
  obtain j where j: "j < length v" "v ! j \<noteq> 0"
    using assms(1) by (auto simp: nonZero_def list_ex_iff in_set_conv_nth)
  have "0 < v ! j * v ! j" using j(2) by (simp add: zero_less_mult_iff) (metis linorder_neqE_linordered_idom)
  moreover have "j \<in> {..<n}" using j(1) assms(2) by simp
  ultimately show ?thesis
    by (intro sum_pos2 [of _ j]) simp_all
qed

lemma cosineSimilarity_bounds:
  assumes "nonZero a" "nonZero b" "length b = length a"
  shows "\<exists>v. cosineSimilarity a b = Num v \<and> - 1 \<le> v \<and> v \<le> 1"
proof -
  define D A B where "D = (\<Sum>i<length a. a ! i * b ! i)"
    and "A = (\<Sum>i<length a. a ! i * a ! i)" and "B = (\<Sum>i<length a. b ! i * b ! i)"
  have A: "0 < A" unfolding A_def using assms(1) by (rule norm_pos) simp
  have B: "0 < B" unfolding B_def using assms(2) by (rule norm_pos) (simp add: assms(3))
  have pos: "0 < sqrt A * sqrt B" using A B by simp
  have "D\<^sup>2 \<le> A * B" unfolding D_def A_def B_def by (rule cauchy_schwarz_sum)
  then have "sqrt (D\<^sup>2) \<le> sqrt (A * B)" by (rule real_sqrt_le_mono)
  then have abs: "\<bar>D\<bar> \<le> sqrt A * sqrt B" by (simp add: real_sqrt_mult)
  have "- (sqrt A * sqrt B) \<le> D" and "D \<le> sqrt A * sqrt B"
    using abs by linarith+
  then have "- 1 \<le> D / (sqrt A * sqrt B) \<and> D / (sqrt A * sqrt B) \<le> 1"
    using pos by (simp add: pos_le_divide_eq pos_divide_le_eq)
  moreover have "cosineSimilarity a b = Num (D / (sqrt A * sqrt B))"
    using A B assms(3) by (simp add: cosineSimilarity_def cosineSums_sum D_def A_def B_def)
  ultimately show ?thesis by blast
qed


lemma boost_foldl:
  "foldl (\<lambda>pb word. if P word then pb + 0.05 else pb) (acc :: real) ws =
     acc + 0.05 * real (length (filter P ws))"
  by (induction ws arbitrary: acc) (simp_all add: algebra_simps)

lemma two_word_phrase:
  "2 \<le> length q \<Longrightarrow> joinWith '' '' (take 2 (take 5 q)) = q ! 0 @ '' '' @ q ! 1"
  by (cases q; cases "tl q") auto

lemma phraseBoostOf_spec: "phraseBoostOf q cl = spec_phrase_boost q cl"
proof (cases "2 \<le> length q")
  case True
  then have "2 \<le> length (take 5 q)" by simp
  then show ?thesis using True two_word_phrase [OF True]
    by (simp add: phraseBoostOf_def spec_phrase_boost_def Let_def boost_foldl del: length_take)
next
  case False
  then have "\<not> 2 \<le> length (take 5 q)" by simp
  then show ?thesis using False
    by (simp add: phraseBoostOf_def spec_phrase_boost_def Let_def boost_foldl del: length_take)
qed


lemma keywordMatch_spec:
  "distinct q \<Longrightarrow> keywordMatch q c = spec_keyword_score q c"
proof -
  assume d: "distinct q"
  have "set (filter (\<lambda>kw. kw \<in> set c) q) = set q \<inter> set c" by auto
  moreover have "distinct (filter (\<lambda>kw. kw \<in> set c) q)" using d by simp
  ultimately have "length (filter (\<lambda>kw. kw \<in> set c) q) = card (set q \<inter> set c)"
    by (metis distinct_card)
  then show ?thesis by (simp add: keywordMatch_def spec_keyword_score_def Let_def)
qed

section \<open>Removing a document\<close>

text \<open>
  Claim C7. On a registry (a \<open>Map\<close>, so with one entry per key), removeDocument throws
  the unknown-document error exactly when the identifier is not in the registry, and the
  store is then left as it was; when it returns, the identifier was in the registry, no chunk
  of the index carries it any more, it has left the registry, and the number of documents has
  gone down by exactly 1.
\<close>

theorem removeDocument_unknown_or_removed:
  assumes "distinct (map fst (documents s))"
  shows "(removeDocument d s = Inl DocumentNotFound \<longleftrightarrow> \<not> mapHas (documents s) d)
     \<and> (\<not> mapHas (documents s) d \<longrightarrow> applyOp embedder s (Remove d) = s)
     \<and> (\<forall>s'. removeDocument d s = Inr s' \<longrightarrow>
           mapHas (documents s) d
         \<and> (\<forall>c \<in> set (chunks s'). docId c \<noteq> d)
         \<and> \<not> mapHas (documents s') d
         \<and> getDocumentCount s' + 1 = getDocumentCount s)"
  using assms length_mapDelete [of "documents s" d]
  by (auto simp: removeDocument_def getDocumentCount_def mapHas_mapDelete)

theorem removeDocument_unknown_or_removed_witness:
  "distinct (map fst (documents exampleStore))
   \<and> removeDocument ''d2'' exampleStore = Inl DocumentNotFound
   \<and> applyOp (\<lambda>t. [1]) exampleStore (Remove ''d2'') = exampleStore
   \<and> removeDocument ''d1'' exampleStore = Inr \<lparr>documents = [], chunks = []\<rparr>
   \<and> getDocumentCount \<lparr>documents = [], chunks = []\<rparr> + 1 = getDocumentCount exampleStore"
proof -
  have d: "distinct (map fst (documents exampleStore))"
    by (simp add: exampleStore_def)
  have r: "removeDocument ''d1'' exampleStore = Inr \<lparr>documents = [], chunks = []\<rparr>"
    by (simp add: removeDocument_def exampleStore_def exampleChunk_def mapHas_def mapDelete_def)
  have n: "\<not> mapHas (documents exampleStore) ''d2''"
    by (simp add: exampleStore_def mapHas_def)
  show ?thesis
    using removeDocument_unknown_or_removed [OF d, of "''d2''" "\<lambda>t. [1]"]
      removeDocument_unknown_or_removed [OF d, of "''d1''" "\<lambda>t. [1]"] d r n
    by simp
qed

section \<open>The registry and the index\<close>

lemma invariant_applyOp:
  assumes "chunksHaveDocuments s" "countedDocumentsHaveChunks s"
  shows "chunksHaveDocuments (applyOp embedder s x)
       \<and> countedDocumentsHaveChunks (applyOp embedder s x)"
proof (cases x)
  case (Add now d nm cs)
  let ?s' = "addDocument embedder now d nm cs s"
  have keys: "fst ` set (documents ?s') = insert d (fst ` set (documents s))"
    by (simp add: documents_addDocument keys_mapSet)
  have a: "chunksHaveDocuments ?s'"
    using assms(1) keys
    by (auto simp: chunksHaveDocuments_def list_all_iff mapHas_def chunks_addDocument
        docId_processChunk)
  have b: "countedDocumentsHaveChunks ?s'"
    unfolding countedDocumentsHaveChunks_def list_all_iff
  proof (intro ballI impI)
    fix e assume e: "e \<in> set (documents ?s')" and pos: "0 < chunkCount (snd e)"
    show "list_ex (\<lambda>c. docId c = fst e) (chunks ?s')"
    proof (cases "fst e = d")
      case True
      have "(d, snd e) \<in> set (documents ?s')" using e True by (cases e) auto
      then have "cs \<noteq> [] \<or> (d, snd e) \<in> set (documents s)"
        using set_mapSet_subset [of "documents s" d
            "\<lparr>doc_id = d, name = nm, chunkCount = length cs, addedAt = now\<rparr>"] pos
        by (auto simp: documents_addDocument)
      then show ?thesis
      proof
        assume "cs \<noteq> []"
        then obtain c where "c \<in> set cs" by (cases cs) auto
        then have mem: "processChunk d (c, embedder (take 512 (content c))) \<in> set (chunks ?s')"
          by (simp add: chunks_addDocument)
        show ?thesis unfolding list_ex_iff
          by (rule bexI [OF _ mem]) (simp add: docId_processChunk True)
      next
        assume "(d, snd e) \<in> set (documents s)"
        then have "list_ex (\<lambda>c. docId c = d) (chunks s)"
          using assms(2) pos
          by (auto simp: countedDocumentsHaveChunks_def list_all_iff)
        then show ?thesis using True
          by (auto simp: list_ex_iff chunks_addDocument)
      qed
    next
      case False
      then have "e \<in> set (documents s)"
        using e mapSet_other [of "fst e" "snd e" "documents s" d]
        by (simp add: documents_addDocument)
      then have "list_ex (\<lambda>c. docId c = fst e) (chunks s)"
        using assms(2) pos by (auto simp: countedDocumentsHaveChunks_def list_all_iff)
      then show ?thesis by (auto simp: list_ex_iff chunks_addDocument)
    qed
  qed
  show ?thesis using a b Add by simp
next
  case (Remove d)
  show ?thesis
  proof (cases "mapHas (documents s) d")
    case False
    then show ?thesis using assms Remove by (simp add: removeDocument_def)
  next
    case True
    let ?s' = "\<lparr>documents = mapDelete (documents s) d,
                 chunks = filter (\<lambda>c. docId c \<noteq> d) (chunks s)\<rparr>"
    have a: "chunksHaveDocuments ?s'"
      using assms(1)
      by (auto simp: chunksHaveDocuments_def list_all_iff mapHas_def mapDelete_def)
    have b: "countedDocumentsHaveChunks ?s'"
      using assms(2)
      by (fastforce simp: countedDocumentsHaveChunks_def list_all_iff list_ex_iff mapDelete_def)
    show ?thesis using a b True Remove by (simp add: removeDocument_def)
  qed
next
  case Clear
  then show ?thesis
    by (simp add: clear_def chunksHaveDocuments_def countedDocumentsHaveChunks_def)
qed

lemma invariant_run:
  "chunksHaveDocuments (run embedder ops) \<and> countedDocumentsHaveChunks (run embedder ops)"
proof (induction ops rule: rev_induct)
  case Nil
  show ?case
    by (simp add: run_Nil newVectorStore_def chunksHaveDocuments_def
        countedDocumentsHaveChunks_def)
next
  case (snoc x ops)
  then show ?case using invariant_applyOp [of "run embedder ops" embedder x]
    by (simp add: run_snoc)
qed

text \<open>
  Claim C8, as stated, fails after an add with an empty chunk list: the document is in the
  registry and owns no chunk of the index.
\<close>

theorem registry_without_chunks_counterexample:
  "\<not> (chunksHaveDocuments (run (\<lambda>t. [1]) [Add ''t'' ''d1'' ''empty.txt'' []])
      \<and> documentsHaveChunks (run (\<lambda>t. [1]) [Add ''t'' ''d1'' ''empty.txt'' []]))"
  by (simp add: run_def documents_addDocument chunks_addDocument newVectorStore_def
      documentsHaveChunks_def mapSet_def mapHas_def)

text \<open>
  Claim C8, amended. In every state that add, remove and clear operations produce from the
  new store (adds with an empty chunk list included), every chunk of the index has its
  owning document in the registry, and every document of the registry whose chunk count is
  not 0 owns at least one chunk of the index.
\<close>

theorem registry_index_invariant:
  "(\<forall>c \<in> set (chunks (run embedder ops)). mapHas (documents (run embedder ops)) (docId c))
   \<and> (\<forall>(d, doc) \<in> set (documents (run embedder ops)).
         chunkCount doc > 0 \<longrightarrow> (\<exists>c \<in> set (chunks (run embedder ops)). docId c = d))"
  using invariant_run [of embedder ops]
  by (fastforce simp: chunksHaveDocuments_def countedDocumentsHaveChunks_def list_all_iff
      list_ex_iff)

theorem registry_index_invariant_witness:
  "list_all (\<lambda>c. mapHas (documents (run (\<lambda>t. [1]) exampleOps)) (docId c))
     (chunks (run (\<lambda>t. [1]) exampleOps))
   \<and> list_all (\<lambda>e. chunkCount (snd e) > 0 \<longrightarrow>
         list_ex (\<lambda>c. docId c = fst e) (chunks (run (\<lambda>t. [1]) exampleOps)))
       (documents (run (\<lambda>t. [1]) exampleOps))
   \<and> map docId (chunks (run (\<lambda>t. [1]) exampleOps)) = [''d2'']
   \<and> map fst (documents (run (\<lambda>t. [1]) exampleOps)) = [''d2'', ''d3'']"
proof -
  have c: "map docId (chunks (run (\<lambda>t. [1]) exampleOps)) = [''d2'']"
    by (simp add: exampleOps_def run_def chunks_addDocument documents_addDocument
        newVectorStore_def removeDocument_def mapSet_def mapHas_def mapDelete_def
        docId_processChunk)
  have d: "map fst (documents (run (\<lambda>t. [1]) exampleOps)) = [''d2'', ''d3'']"
    by (simp add: exampleOps_def run_def chunks_addDocument documents_addDocument
        newVectorStore_def removeDocument_def mapSet_def mapHas_def mapDelete_def)
  show ?thesis
    using registry_index_invariant [of "\<lambda>t. [1]" exampleOps] c d
    by (simp add: list_all_iff list_ex_iff split_beta)
qed

section \<open>The router\<close>

lemma map_of_mapSet: "map_of (mapSet m k v) k = Some v"
proof (cases "mapHas m k")
  case True
  have "map_of (updateKey k v m) k = Some v" if "k \<in> fst ` set m"
    using that by (induction m) (force split: if_splits)+
  then show ?thesis using True by (simp add: mapSet_def mapHas_def)
next
  case False
  then have "map_of m k = None" by (simp add: mapHas_def map_of_eq_None_iff)
  then show ?thesis using False by (simp add: mapSet_def map_add_def)
qed

lemma hasDocuments_iff: "hasDocuments s \<longleftrightarrow> chunks s \<noteq> []"
  by (simp add: hasDocuments_def)

lemma length_hybridSearch:
  "length (hybridSearch embedder s query topK) = min topK (length (chunks s))"
  by (simp add: hybridSearch_def Let_def length_sortStable min.commute)

lemma route_rag_empty:
  "\<not> hasDocuments s \<Longrightarrow>
     route embedder llm s query ''rag'' h =
       ([], Inr \<lparr>answer = noDocumentsAnswer, mode = ''error'', sources = [],
                  retrievedCount = None, noRelevantResults = False\<rparr>)"
  by (simp add: route_def)

lemma route_auto:
  "route embedder llm s query ''auto'' h =
     dispatch embedder llm s query h (autoDetectMode embedder s query (hasDocuments s))"
  by (simp add: route_def)

lemma toLowerCase_documentKeywords:
  "kw \<in> set documentKeywords \<Longrightarrow> toLowerCase kw = kw"
  by (auto simp: documentKeywords_def toLowerCase_def toLowerCaseChar_def isUpperCase_def
      charCode_def)

lemma hint_iff:
  "list_ex (\<lambda>kw. strIncludes (toLowerCase query) kw) documentKeywords \<longleftrightarrow>
     (\<exists>kw \<in> set documentKeywords. strIncludes (toLowerCase query) (toLowerCase kw))"
  by (auto simp: list_ex_iff toLowerCase_documentKeywords)

subsection \<open>Evaluation on the example store\<close>

lemma extractKeywords_banana: "extractKeywords ''banana'' = [''banana'']"
  by code_simp

lemma cosine_examples:
  "cosineSimilarity [0, 1] [1, 0] = Num 0"
  "cosineSimilarity [9 / 41, 40 / 41] [1, 0] = Num (9 / 41)"
  "cosineSimilarity [1, 0] [1, 0] = Num 1"
  by (simp_all add: cosineSimilarity_def cosineSums_sum lessThan_Suc eval_nat_numeral field_simps)

lemma hybridSearch_banana:
  "hybridSearch (\<lambda>t. v) exampleStore ''banana'' (Suc k) =
     [\<lparr>chunk_id = ''a.txt-chunk-0'', content = ''Cats purr.'',
       metadata = \<lparr>filename = Some ''a.txt'', url = None, mtype = ''.txt'', title = None,
         chunkIndex = 0, charStart = 0, charEnd = 11\<rparr>,
       docId = ''d1'', vectorScore = cosineSimilarity v [1, 0], keywordScore = 0,
       phraseBoost = 0, score = combine (cosineSimilarity v [1, 0]) 0 0\<rparr>]"
  by (simp add: hybridSearch_def exampleStore_def exampleChunk_def generateEmbedding_def
      extractKeywords_banana scoreChunk_def keywordMatch_def phraseBoostOf_def
      sortStable_def toLowerCase_def toLowerCaseChar_def isUpperCase_def charCode_def Let_def)

lemma hybridSearch_banana8:
  "hybridSearch (\<lambda>t. v) exampleStore ''banana'' 8 =
     [\<lparr>chunk_id = ''a.txt-chunk-0'', content = ''Cats purr.'',
       metadata = \<lparr>filename = Some ''a.txt'', url = None, mtype = ''.txt'', title = None,
         chunkIndex = 0, charStart = 0, charEnd = 11\<rparr>,
       docId = ''d1'', vectorScore = cosineSimilarity v [1, 0], keywordScore = 0,
       phraseBoost = 0, score = combine (cosineSimilarity v [1, 0]) 0 0\<rparr>]"
  using hybridSearch_banana [of v 7] by simp

lemma scoreText_example: "scoreText (Num (27 / 205)) = ''13.2%''"
  by (simp add: scoreText_def toFixed1_def digits.simps)


lemma no_hint_banana:
  "\<not> (\<exists>kw \<in> set documentKeywords. strIncludes (toLowerCase ''banana'') (toLowerCase kw))"
  by code_simp

lemma hint_example:
  "\<exists>kw \<in> set documentKeywords.
     strIncludes (toLowerCase ''What does the document say about cats?'') (toLowerCase kw)"
  by code_simp

text \<open>
  Claim C2. With an empty index, a request in mode \<open>rag\<close> is answered by the fixed refusal
  with mode \<open>error\<close>, no sources and no call of the language model, and a request in mode
  \<open>auto\<close> goes to the general handler. With a non-empty index, a request in mode \<open>auto\<close>
  goes to the grounded handler when a hint term occurs in the query, letter case ignored;
  otherwise it goes to the grounded handler exactly when the score of the first hit of
  \<open>hybridSearch(query, 1)\<close> is greater than 0.15, and to the general handler if not.
\<close>

theorem route_mode_resolution:
  "(chunks s = [] \<longrightarrow>
      route embedder llm s query ''rag'' h =
        ([], Inr \<lparr>answer = noDocumentsAnswer, mode = ''error'', sources = [],
                   retrievedCount = None, noRelevantResults = False\<rparr>)
    \<and> route embedder llm s query ''auto'' h = handleGeneralQuery llm query h)
   \<and> (chunks s \<noteq> [] \<longrightarrow>
        (\<exists>kw \<in> set documentKeywords. strIncludes (toLowerCase query) (toLowerCase kw)) \<longrightarrow>
        route embedder llm s query ''auto'' h = handleRAGQuery embedder llm s query h)
   \<and> (chunks s \<noteq> [] \<longrightarrow>
        \<not> (\<exists>kw \<in> set documentKeywords. strIncludes (toLowerCase query) (toLowerCase kw)) \<longrightarrow>
        hybridSearch embedder s query 1 \<noteq> []
        \<and> route embedder llm s query ''auto'' h =
            (if numGreater (score (hd (hybridSearch embedder s query 1))) 0.15
             then handleRAGQuery embedder llm s query h
             else handleGeneralQuery llm query h))"
proof (intro conjI impI)
  assume e: "chunks s = []"
  show "route embedder llm s query ''rag'' h =
        ([], Inr \<lparr>answer = noDocumentsAnswer, mode = ''error'', sources = [],
                   retrievedCount = None, noRelevantResults = False\<rparr>)"
    using e by (simp add: route_rag_empty hasDocuments_iff)
  show "route embedder llm s query ''auto'' h = handleGeneralQuery llm query h"
    using e by (simp add: route_auto hasDocuments_iff autoDetectMode_def dispatch_def)
next
  assume ne: "chunks s \<noteq> []"
    and hint: "\<exists>kw \<in> set documentKeywords. strIncludes (toLowerCase query) (toLowerCase kw)"
  show "route embedder llm s query ''auto'' h = handleRAGQuery embedder llm s query h"
    using ne hint_iff [of query] hint
    by (simp add: route_auto hasDocuments_iff autoDetectMode_def dispatch_def Let_def)
next
  assume ne: "chunks s \<noteq> []"
    and nohint: "\<not> (\<exists>kw \<in> set documentKeywords.
        strIncludes (toLowerCase query) (toLowerCase kw))"
  have len: "length (hybridSearch embedder s query 1) = 1"
    using ne by (cases "chunks s") (simp_all add: length_hybridSearch)
  then show nonempty: "hybridSearch embedder s query 1 \<noteq> []" by auto
  have auto_mode: "autoDetectMode embedder s query True =
      (if numGreater (score (hd (hybridSearch embedder s query 1))) 0.15
       then ''rag'' else ''general'')"
    using hint_iff [of query] nohint nonempty
    by (simp add: autoDetectMode_def Let_def relevanceThreshold_def)
  show "route embedder llm s query ''auto'' h =
      (if numGreater (score (hd (hybridSearch embedder s query 1))) 0.15
       then handleRAGQuery embedder llm s query h
       else handleGeneralQuery llm query h)"
    using ne by (simp add: route_auto hasDocuments_iff auto_mode dispatch_def)
qed

lemma generateRAGResponse_nonempty:
  "xs \<noteq> [] \<Longrightarrow>
     generateRAGResponse llm query xs h =
       (case llm query (Some (buildContext xs)) h of
          None \<Rightarrow> ([(query, Some (buildContext xs), h)], Inl LLMError)
        | Some a \<Rightarrow> ([(query, Some (buildContext xs), h)], Inr (a, formatSources xs)))"
  by (simp add: generateRAGResponse_def Let_def)

text \<open>
  Claim C3. In the grounded handler the eight best hits are filtered by a score of at least
  0.15. If none is left, the hits with a score of at least 0.10 are used: the language model
  is called once, with the context built from the first five of them, the sources are those
  five at most, and the retrieved count is the number of all of them. If none is left
  either, the answer is the fixed no-relevant-results message with no sources,
  \<open>noRelevantResults\<close> set, and no call of the language model.
\<close>

theorem handleRAGQuery_thresholds:
  "(filter (\<lambda>c. numAtLeast (score c) 0.15) (hybridSearch embedder s query 8) \<noteq> [] \<longrightarrow>
      handleRAGQuery embedder llm s query h =
        ragResponse
          (generateRAGResponse llm query
             (filter (\<lambda>c. numAtLeast (score c) 0.15) (hybridSearch embedder s query 8)) h)
          (length (filter (\<lambda>c. numAtLeast (score c) 0.15) (hybridSearch embedder s query 8))))
   \<and> (filter (\<lambda>c. numAtLeast (score c) 0.15) (hybridSearch embedder s query 8) = [] \<longrightarrow>
       filter (\<lambda>c. numAtLeast (score c) 0.1) (hybridSearch embedder s query 8) \<noteq> [] \<longrightarrow>
         fst (handleRAGQuery embedder llm s query h) =
           [(query,
             Some (buildContext
               (take 5 (filter (\<lambda>c. numAtLeast (score c) 0.1) (hybridSearch embedder s query 8)))),
             h)]
       \<and> length (formatSources
           (take 5 (filter (\<lambda>c. numAtLeast (score c) 0.1) (hybridSearch embedder s query 8)))) \<le> 5
       \<and> (\<forall>a. llm query
                 (Some (buildContext
                   (take 5 (filter (\<lambda>c. numAtLeast (score c) 0.1)
                      (hybridSearch embedder s query 8))))) h = Some a \<longrightarrow>
              snd (handleRAGQuery embedder llm s query h) =
                Inr \<lparr>answer = a, mode = ''rag'',
                     sources = formatSources
                       (take 5 (filter (\<lambda>c. numAtLeast (score c) 0.1)
                          (hybridSearch embedder s query 8))),
                     retrievedCount = Some (length (filter (\<lambda>c. numAtLeast (score c) 0.1)
                          (hybridSearch embedder s query 8))),
                     noRelevantResults = False\<rparr>))
   \<and> (filter (\<lambda>c. numAtLeast (score c) 0.15) (hybridSearch embedder s query 8) = [] \<longrightarrow>
       filter (\<lambda>c. numAtLeast (score c) 0.1) (hybridSearch embedder s query 8) = [] \<longrightarrow>
         handleRAGQuery embedder llm s query h =
           ([], Inr \<lparr>answer = noRelevantAnswer, mode = ''rag'', sources = [],
                      retrievedCount = None, noRelevantResults = True\<rparr>))"
proof (intro conjI impI allI)
  assume "filter (\<lambda>c. numAtLeast (score c) 0.15) (hybridSearch embedder s query 8) \<noteq> []"
  then show "handleRAGQuery embedder llm s query h =
        ragResponse
          (generateRAGResponse llm query
             (filter (\<lambda>c. numAtLeast (score c) 0.15) (hybridSearch embedder s query 8)) h)
          (length (filter (\<lambda>c. numAtLeast (score c) 0.15) (hybridSearch embedder s query 8)))"
    by (simp add: handleRAGQuery_def Let_def relevanceThreshold_def)
next
  let ?fb = "filter (\<lambda>c. numAtLeast (score c) 0.1) (hybridSearch embedder s query 8)"
  assume r: "filter (\<lambda>c. numAtLeast (score c) 0.15) (hybridSearch embedder s query 8) = []"
    and f: "?fb \<noteq> []"
  have t: "take 5 ?fb \<noteq> []" using f by (cases ?fb) auto
  have eq: "handleRAGQuery embedder llm s query h =
      ragResponse (generateRAGResponse llm query (take 5 ?fb) h) (length ?fb)"
    using r f by (simp add: handleRAGQuery_def Let_def relevanceThreshold_def)
  show "fst (handleRAGQuery embedder llm s query h) = [(query, Some (buildContext (take 5 ?fb)), h)]"
    unfolding eq generateRAGResponse_nonempty [OF t]
    by (cases "llm query (Some (buildContext (take 5 ?fb))) h")
       (simp_all add: ragResponse_def)
  show "length (formatSources (take 5 ?fb)) \<le> 5"
    by (simp add: formatSources_def)
  fix a assume "llm query (Some (buildContext (take 5 ?fb))) h = Some a"
  then show "snd (handleRAGQuery embedder llm s query h) =
      Inr \<lparr>answer = a, mode = ''rag'', sources = formatSources (take 5 ?fb),
           retrievedCount = Some (length ?fb), noRelevantResults = False\<rparr>"
    unfolding eq generateRAGResponse_nonempty [OF t] by (simp add: ragResponse_def)
next
  assume "filter (\<lambda>c. numAtLeast (score c) 0.15) (hybridSearch embedder s query 8) = []"
    and "filter (\<lambda>c. numAtLeast (score c) 0.1) (hybridSearch embedder s query 8) = []"
  then show "handleRAGQuery embedder llm s query h =
      ([], Inr \<lparr>answer = noRelevantAnswer, mode = ''rag'', sources = [],
                 retrievedCount = None, noRelevantResults = True\<rparr>)"
    by (simp add: handleRAGQuery_def Let_def relevanceThreshold_def)
qed

theorem handleRAGQuery_thresholds_witness:
  "handleRAGQuery (\<lambda>t. [0, 1]) (\<lambda>q c h. Some ''ok'') exampleStore ''banana'' [] =
     ([], Inr \<lparr>answer = noRelevantAnswer, mode = ''rag'', sources = [],
                retrievedCount = None, noRelevantResults = True\<rparr>)
   \<and> fst (handleRAGQuery (\<lambda>t. [9 / 41, 40 / 41]) (\<lambda>q c h. Some ''ok'') exampleStore ''banana'' []) =
       [(''banana'', Some (''[Source 1 - a.txt]'' @ [newline] @ ''Cats purr.''), [])]
   \<and> snd (handleRAGQuery (\<lambda>t. [9 / 41, 40 / 41]) (\<lambda>q c h. Some ''ok'') exampleStore ''banana'' []) =
       Inr \<lparr>answer = ''ok'', mode = ''rag'',
            sources = [\<lparr>source_id = 1, source_content = ''Cats purr.'', source = ''a.txt'',
                        score_text = ''13.2%'', source_chunkIndex = 0\<rparr>],
            retrievedCount = Some 1, noRelevantResults = False\<rparr>
   \<and> handleRAGQuery (\<lambda>t. [1, 0]) (\<lambda>q c h. Some ''ok'') exampleStore ''banana'' [] =
       ([(''banana'', Some (''[Source 1 - a.txt]'' @ [newline] @ ''Cats purr.''), [])],
        Inr \<lparr>answer = ''ok'', mode = ''rag'',
            sources = [\<lparr>source_id = 1, source_content = ''Cats purr.'', source = ''a.txt'',
                        score_text = ''60.0%'', source_chunkIndex = 0\<rparr>],
            retrievedCount = Some 1, noRelevantResults = False\<rparr>)"
  using handleRAGQuery_thresholds [where embedder = "\<lambda>t. [0, 1]" and s = exampleStore
      and query = "''banana''" and llm = "\<lambda>q c h. Some ''ok''" and h = "[]"]
    handleRAGQuery_thresholds [where embedder = "\<lambda>t. [9 / 41, 40 / 41]" and s = exampleStore
      and query = "''banana''" and llm = "\<lambda>q c h. Some ''ok''" and h = "[]"]
    handleRAGQuery_thresholds [where embedder = "\<lambda>t. [1, 0]" and s = exampleStore
      and query = "''banana''" and llm = "\<lambda>q c h. Some ''ok''" and h = "[]"]
  by (simp add: hybridSearch_banana8 cosine_examples combine_def numAtLeast_def
      buildContext_def contextEntry_def formatSources_def formatSource_def sourceName_def
      sourceOrUnknown_def scoreText_def toFixed1_def digits.simps ragResponse_def
      generateRAGResponse_def)

theorem route_mode_resolution_witness:
  "route (\<lambda>t. [0, 1]) (\<lambda>q c h. Some ''ok'') newVectorStore ''banana'' ''rag'' [] =
     ([], Inr \<lparr>answer = noDocumentsAnswer, mode = ''error'', sources = [],
                retrievedCount = None, noRelevantResults = False\<rparr>)
   \<and> route (\<lambda>t. [0, 1]) (\<lambda>q c h. Some ''ok'') newVectorStore ''banana'' ''auto'' [] =
       ([(''banana'', None, [])],
        Inr \<lparr>answer = ''ok'', mode = ''general'', sources = [],
             retrievedCount = None, noRelevantResults = False\<rparr>)
   \<and> route (\<lambda>t. [0, 1]) (\<lambda>q c h. Some ''ok'') exampleStore
         ''What does the document say about cats?'' ''auto'' [] =
       handleRAGQuery (\<lambda>t. [0, 1]) (\<lambda>q c h. Some ''ok'') exampleStore
         ''What does the document say about cats?'' []
   \<and> route (\<lambda>t. [0, 1]) (\<lambda>q c h. Some ''ok'') exampleStore ''banana'' ''auto'' [] =
       ([(''banana'', None, [])],
        Inr \<lparr>answer = ''ok'', mode = ''general'', sources = [],
             retrievedCount = None, noRelevantResults = False\<rparr>)
   \<and> route (\<lambda>t. [1, 0]) (\<lambda>q c h. Some ''ok'') exampleStore ''banana'' ''auto'' [] =
       handleRAGQuery (\<lambda>t. [1, 0]) (\<lambda>q c h. Some ''ok'') exampleStore ''banana'' []"
proof -
  have ne: "chunks exampleStore \<noteq> []" by (simp add: exampleStore_def)
  have e: "chunks newVectorStore = []" by (simp add: newVectorStore_def)
  show ?thesis
    using route_mode_resolution [where embedder = "\<lambda>t. [0, 1]" and s = newVectorStore
        and query = "''banana''" and llm = "\<lambda>q c h. Some ''ok''" and h = "[]"]
      route_mode_resolution [where embedder = "\<lambda>t. [0, 1]" and s = exampleStore
        and query = "''What does the document say about cats?''"
        and llm = "\<lambda>q c h. Some ''ok''" and h = "[]"]
      route_mode_resolution [where embedder = "\<lambda>t. [0, 1]" and s = exampleStore
        and query = "''banana''" and llm = "\<lambda>q c h. Some ''ok''" and h = "[]"]
      route_mode_resolution [where embedder = "\<lambda>t. [1, 0]" and s = exampleStore
        and query = "''banana''" and llm = "\<lambda>q c h. Some ''ok''" and h = "[]"]
      ne e no_hint_banana hint_example
    by (simp add: hybridSearch_banana [of _ 0, simplified] cosine_examples combine_def
        numGreater_def handleGeneralQuery_def generateGeneralResponse_def)
qed

section \<open>An empty document\<close>

text \<open>
  Claim C10. hasDocuments is true exactly when the index holds a chunk. A text that is empty
  gives no chunk, and after addDocument with an empty chunk list on an index without chunks, the registry holds the document with
  chunk count 0, the document count is positive and hasDocuments is false: the router sends
  a request in mode \<open>auto\<close> to the general handler and refuses one in mode \<open>rag\<close>.
\<close>

theorem hasDocuments_is_chunk_count:
  "(hasDocuments s \<longleftrightarrow> getChunkCount s > 0)
   \<and> createChunks p [] md = []
   \<and> (chunks s = [] \<longrightarrow>
        map_of (documents (addDocument embedder now d nm [] s)) d =
          Some \<lparr>doc_id = d, name = nm, chunkCount = 0, addedAt = now\<rparr>
      \<and> getDocumentCount (addDocument embedder now d nm [] s) > 0
      \<and> \<not> hasDocuments (addDocument embedder now d nm [] s)
      \<and> route embedder llm (addDocument embedder now d nm [] s) query ''auto'' h =
          handleGeneralQuery llm query h
      \<and> route embedder llm (addDocument embedder now d nm [] s) query ''rag'' h =
          ([], Inr \<lparr>answer = noDocumentsAnswer, mode = ''error'', sources = [],
                     retrievedCount = None, noRelevantResults = False\<rparr>))"
proof (intro conjI impI)
  show "hasDocuments s \<longleftrightarrow> getChunkCount s > 0"
    by (simp add: hasDocuments_def getChunkCount_def)
next
  show "createChunks p [] md = []"
    by (simp add: createChunks_def splitIntoSentences_def trim_def)
next
  assume e: "chunks s = []"
  let ?s' = "addDocument embedder now d nm [] s"
  have c: "chunks ?s' = []" using e by (simp add: chunks_addDocument)
  show "map_of (documents ?s') d = Some \<lparr>doc_id = d, name = nm, chunkCount = 0, addedAt = now\<rparr>"
    by (simp add: documents_addDocument map_of_mapSet)
  have "(d, \<lparr>doc_id = d, name = nm, chunkCount = 0, addedAt = now\<rparr>) \<in> set (documents ?s')"
    using mapSet_entry [of d _ "documents s"] by (simp add: documents_addDocument)
  then show "getDocumentCount ?s' > 0"
    unfolding getDocumentCount_def by (cases "documents ?s'") auto
  show "\<not> hasDocuments ?s'" using c by (simp add: hasDocuments_iff)
  show "route embedder llm ?s' query ''auto'' h = handleGeneralQuery llm query h"
    using c by (simp add: route_auto hasDocuments_iff autoDetectMode_def dispatch_def)
  show "route embedder llm ?s' query ''rag'' h =
      ([], Inr \<lparr>answer = noDocumentsAnswer, mode = ''error'', sources = [],
                 retrievedCount = None, noRelevantResults = False\<rparr>)"
    using c by (simp add: route_rag_empty hasDocuments_iff)
qed

theorem hasDocuments_is_chunk_count_witness:
  "chunks newVectorStore = []
   \<and> documents (addDocument (\<lambda>t. [1, 0]) ''t'' ''d1'' ''empty.pptx'' [] newVectorStore) =
       [(''d1'', \<lparr>doc_id = ''d1'', name = ''empty.pptx'', chunkCount = 0, addedAt = ''t''\<rparr>)]
   \<and> getDocumentCount (addDocument (\<lambda>t. [1, 0]) ''t'' ''d1'' ''empty.pptx'' [] newVectorStore) = 1
   \<and> \<not> hasDocuments (addDocument (\<lambda>t. [1, 0]) ''t'' ''d1'' ''empty.pptx'' [] newVectorStore)
   \<and> route (\<lambda>t. [1, 0]) (\<lambda>q c h. Some ''ok'')
         (addDocument (\<lambda>t. [1, 0]) ''t'' ''d1'' ''empty.pptx'' [] newVectorStore)
         ''summarize'' ''auto'' [] =
       ([(''summarize'', None, [])],
        Inr \<lparr>answer = ''ok'', mode = ''general'', sources = [],
             retrievedCount = None, noRelevantResults = False\<rparr>)
   \<and> route (\<lambda>t. [1, 0]) (\<lambda>q c h. Some ''ok'')
         (addDocument (\<lambda>t. [1, 0]) ''t'' ''d1'' ''empty.pptx'' [] newVectorStore)
         ''summarize'' ''rag'' [] =
       ([], Inr \<lparr>answer = noDocumentsAnswer, mode = ''error'', sources = [],
                  retrievedCount = None, noRelevantResults = False\<rparr>)"
proof -
  have e: "chunks newVectorStore = []" by (simp add: newVectorStore_def)
  show ?thesis
    using hasDocuments_is_chunk_count [where s = newVectorStore and embedder = "\<lambda>t. [1, 0]"
        and now = "''t''" and d = "''d1''" and nm = "''empty.pptx''"
        and llm = "\<lambda>q c h. Some ''ok''" and query = "''summarize''" and h = "[]"] e
    by (simp add: documents_addDocument newVectorStore_def mapSet_def mapHas_def
        getDocumentCount_def handleGeneralQuery_def generateGeneralResponse_def)
qed

section \<open>Ranking\<close>

subsection \<open>Keywords are distinct\<close>

lemma keys_insertIndexKey: "map fst (insertIndexKey k v obj) \<in> {xs. mset xs = add_mset k (mset (map fst obj))}"
  by (induction obj) auto

lemma distinct_insertIndexKey:
  "distinct (map fst obj) \<Longrightarrow> k \<notin> fst ` set obj \<Longrightarrow> distinct (map fst (insertIndexKey k v obj))"
proof -
  assume d: "distinct (map fst obj)" and k: "k \<notin> fst ` set obj"
  have m: "mset (map fst (insertIndexKey k v obj)) = add_mset k (mset (map fst obj))"
    using keys_insertIndexKey [of k v obj] by simp
  have "distinct (k # map fst obj)" using d k by simp
  moreover have "mset (k # map fst obj) = mset (map fst (insertIndexKey k v obj))"
    using m by simp
  ultimately show ?thesis by (metis mset_eq_imp_distinct_iff)
qed

lemma distinct_setProp:
  "distinct (map fst obj) \<Longrightarrow> distinct (map fst (setProp obj k v))"
  by (auto simp: setProp_def map_fst_updateKey distinct_insertIndexKey)

lemma distinct_foldl_setProp:
  "distinct (map fst obj) \<Longrightarrow>
     distinct (map fst (foldl (\<lambda>wordFreq word. setProp wordFreq word (bumped wordFreq word)) obj ws))"
  by (induction ws arbitrary: obj) (simp_all add: distinct_setProp)

lemma distinct_countWords: "distinct (map fst (countWords ws))"
  by (simp add: countWords_def distinct_foldl_setProp)

lemma distinct_extractKeywords: "distinct (extractKeywords text)"
proof -
  let ?obj = "countWords (keywordTokens text)"
  have "mset (map fst (sortStable freqAfter ?obj)) = mset (map fst ?obj)"
    by (simp add: mset_sortStable)
  then have "distinct (map fst (sortStable freqAfter ?obj))"
    using distinct_countWords [of "keywordTokens text"] by (metis mset_eq_imp_distinct_iff)
  then have "distinct (take 20 (map fst (sortStable freqAfter ?obj)))"
    by (rule distinct_take)
  then show ?thesis by (simp add: extractKeywords_def take_map)
qed

lemma length_extractKeywords: "length (extractKeywords text) \<le> 20"
  by (simp add: extractKeywords_def)

subsection \<open>The scored chunk\<close>

lemma scoreChunk_spec:
  assumes "cosineSimilarity q_emb (embedding c) = Num v" "distinct q_kw"
  shows "scoreChunk q_emb q_kw c = spec_scored_chunk q_emb q_kw c"
  using assms
  by (simp add: scoreChunk_def spec_scored_chunk_def Let_def keywordMatch_spec phraseBoostOf_spec
      combine_def spec_score_def numValue_def)

lemma fit_cosine:
  assumes "embeddingsFit q_emb s" "c \<in> set (chunks s)"
  shows "\<exists>v. cosineSimilarity q_emb (embedding c) = Num v \<and> - 1 \<le> v \<and> v \<le> 1"
  using assms by (intro cosineSimilarity_bounds) (auto simp: embeddingsFit_def list_all_iff)

lemma map_scoreChunk_spec:
  assumes "embeddingsFit q_emb s" "distinct q_kw"
  shows "map (scoreChunk q_emb q_kw) (chunks s) = map (spec_scored_chunk q_emb q_kw) (chunks s)"
proof (rule map_cong [OF refl])
  fix c assume "c \<in> set (chunks s)"
  then obtain v where "cosineSimilarity q_emb (embedding c) = Num v"
    using fit_cosine [OF assms(1)] by blast
  then show "scoreChunk q_emb q_kw c = spec_scored_chunk q_emb q_kw c"
    using assms(2) by (rule scoreChunk_spec)
qed

lemma scoreAfter_spec:
  "scoreAfter (spec_scored_chunk q_emb q_kw c) (spec_scored_chunk q_emb q_kw c') =
     (\<not> - numValue (score (spec_scored_chunk q_emb q_kw c))
          \<le> - numValue (score (spec_scored_chunk q_emb q_kw c')))"
  by (auto simp: scoreAfter_def spec_scored_chunk_def numValue_def)

lemma hybridSearch_spec:
  assumes "embeddingsFit (generateEmbedding embedder query) s"
  shows "hybridSearch embedder s query k = spec_hybrid_search embedder s query k"
proof (cases "chunks s = []")
  case True
  then show ?thesis
    by (simp add: hybridSearch_def spec_hybrid_search_def spec_ranking_def)
next
  case False
  let ?qe = "embedder (take 512 query)" and ?qk = "extractKeywords query"
  let ?xs = "map (spec_scored_chunk ?qe ?qk) (chunks s)"
  have fit: "embeddingsFit ?qe s" using assms by (simp add: generateEmbedding_def)
  have m: "map (scoreChunk ?qe ?qk) (chunks s) = ?xs"
    using fit distinct_extractKeywords by (rule map_scoreChunk_spec)
  have srt: "sortStable scoreAfter ?xs = sort_key (\<lambda>r. - numValue (score r)) ?xs"
    by (rule sortStable_sort_key) (auto simp: scoreAfter_spec)
  show ?thesis using False
    by (simp add: hybridSearch_def spec_hybrid_search_def spec_ranking_def Let_def
        generateEmbedding_def m srt)
qed


section \<open>Hybrid search\<close>

lemma extractKeywords_cats: "extractKeywords ''cats purr'' = [''cats'', ''purr'']"
  by code_simp

lemma serve_example:
  "serve (\<lambda>n. ''.txt'') (\<lambda>t. [1, 0]) [Upload ''t'' ''d1'' ''a.txt'' ''Cats purr.''] = exampleStore"
  by code_simp

text \<open>
  Claim C1. On a non-empty index whose embeddings fit the embedding of the query,
  hybridSearch returns the first \<open>k\<close> chunks of the ranking of the specification: every
  chunk of the index scored with
  \<open>0.60 * vector_score + 0.25 * keyword_score + min(phrase_boost, 0.15)\<close>, the keyword score
  and the phrase boost being those of the specification, sorted by descending score, chunks
  of equal score in the order of the index.
\<close>

theorem hybridSearch_ranking:
  assumes "chunks s \<noteq> []" and "embeddingsFit (generateEmbedding embedder query) s"
  shows "hybridSearch embedder s query k = take k (spec_ranking embedder s query)
    \<and> mset (spec_ranking embedder s query) =
        mset (map (spec_scored_chunk (embedder (take 512 query)) (extractKeywords query))
               (chunks s))
    \<and> sorted_wrt (\<lambda>a b. numValue (score a) \<ge> numValue (score b))
        (spec_ranking embedder s query)
    \<and> (\<forall>t. filter (\<lambda>r. numValue (score r) = t) (spec_ranking embedder s query) =
            filter (\<lambda>r. numValue (score r) = t)
              (map (spec_scored_chunk (embedder (take 512 query)) (extractKeywords query))
                 (chunks s)))
    \<and> length (hybridSearch embedder s query k) = min k (length (chunks s))"
proof (intro conjI allI)
  let ?xs = "map (spec_scored_chunk (embedder (take 512 query)) (extractKeywords query))
     (chunks s)"
  let ?f = "\<lambda>r. - numValue (score r)"
  show "hybridSearch embedder s query k = take k (spec_ranking embedder s query)"
    using hybridSearch_spec [OF assms(2)] by (simp add: spec_hybrid_search_def)
  show "mset (spec_ranking embedder s query) = mset ?xs"
    by (simp add: spec_ranking_def)
  have "sorted (map ?f (sort_key ?f ?xs))" by (rule sorted_sort_key)
  then show "sorted_wrt (\<lambda>a b. numValue (score a) \<ge> numValue (score b))
      (spec_ranking embedder s query)"
    by (simp add: spec_ranking_def sorted_map)
  show "length (hybridSearch embedder s query k) = min k (length (chunks s))"
    by (rule length_hybridSearch)
  fix t
  have "filter (\<lambda>r. ?f r = - t) (sort_key ?f ?xs) = filter (\<lambda>r. ?f r = - t) ?xs"
    by (rule sort_key_stable)
  then show "filter (\<lambda>r. numValue (score r) = t) (spec_ranking embedder s query) =
      filter (\<lambda>r. numValue (score r) = t) ?xs"
    by (simp add: spec_ranking_def)
qed

lemma exampleIndex_fit: "embeddingsFit (generateEmbedding (\<lambda>t. [1, 0]) q) exampleIndex"
  by (simp add: embeddingsFit_def generateEmbedding_def nonZero_def exampleIndex_def
      exampleChunk_def)

theorem hybridSearch_ranking_witness:
  "chunks exampleIndex \<noteq> []
   \<and> embeddingsFit (generateEmbedding (\<lambda>t. [1, 0]) ''cats purr'') exampleIndex
   \<and> map (\<lambda>r. (docId r, vectorScore r, keywordScore r, phraseBoost r, score r))
       (hybridSearch (\<lambda>t. [1, 0]) exampleIndex ''cats purr'' 2) =
       [(''d1'', Num 1, 1, 1 / 5, Num 1), (''d2'', Num 1, 1, 1 / 5, Num 1)]
   \<and> map (\<lambda>r. (docId r, score r)) (spec_ranking (\<lambda>t. [1, 0]) exampleIndex ''cats purr'') =
       [(''d1'', Num 1), (''d2'', Num 1), (''d0'', Num 0)]"
proof -
  have ne: "chunks exampleIndex \<noteq> []" by (simp add: exampleIndex_def)
  have cos: "cosineSimilarity [1, 0] [0, 1] = Num 0" "cosineSimilarity [1, 0] [1, 0] = Num 1"
    by (simp_all add: cosineSimilarity_def cosineSums_sum lessThan_Suc eval_nat_numeral)
  have r: "map (\<lambda>r. (docId r, vectorScore r, keywordScore r, phraseBoost r, score r))
       (spec_ranking (\<lambda>t. [1, 0]) exampleIndex ''cats purr'') =
       [(''d1'', Num 1, 1, 1 / 5, Num 1), (''d2'', Num 1, 1, 1 / 5, Num 1),
        (''d0'', Num 0, 0, 0, Num 0)]"
    by (simp add: spec_ranking_def exampleIndex_def exampleChunk_def extractKeywords_cats
        spec_scored_chunk_def cos spec_keyword_score_def spec_phrase_boost_def spec_score_def
        numValue_def toLowerCase_def toLowerCaseChar_def isUpperCase_def charCode_def)
  have r2: "map (\<lambda>r. (docId r, score r)) (spec_ranking (\<lambda>t. [1, 0]) exampleIndex ''cats purr'') =
       [(''d1'', Num 1), (''d2'', Num 1), (''d0'', Num 0)]"
    by (simp add: spec_ranking_def exampleIndex_def exampleChunk_def extractKeywords_cats
        spec_scored_chunk_def cos spec_keyword_score_def spec_phrase_boost_def spec_score_def
        numValue_def toLowerCase_def toLowerCaseChar_def isUpperCase_def charCode_def)
  have h: "hybridSearch (\<lambda>t. [1, 0]) exampleIndex ''cats purr'' 2 =
      take 2 (spec_ranking (\<lambda>t. [1, 0]) exampleIndex ''cats purr'')"
    using hybridSearch_ranking [OF ne exampleIndex_fit, of "''cats purr''" 2] by blast
  have "map (\<lambda>r. (docId r, vectorScore r, keywordScore r, phraseBoost r, score r))
       (hybridSearch (\<lambda>t. [1, 0]) exampleIndex ''cats purr'' 2) =
       take 2 (map (\<lambda>r. (docId r, vectorScore r, keywordScore r, phraseBoost r, score r))
         (spec_ranking (\<lambda>t. [1, 0]) exampleIndex ''cats purr''))"
    unfolding h by (rule take_map [symmetric])
  also have "\<dots> = [(''d1'', Num 1, 1, 1 / 5, Num 1), (''d2'', Num 1, 1, 1 / 5, Num 1)]"
    unfolding r by simp
  finally show ?thesis
    using ne exampleIndex_fit [of "''cats purr''"] r2 by simp
qed






section \<open>Decimal numerals\<close>

lemma below_ten: "(n::nat) < 10 \<longleftrightarrow> n \<in> {0, 1, 2, 3, 4, 5, 6, 7, 8, 9}"
  by auto

lemma charCode_digit: "n < 10 \<Longrightarrow> charCode (''0123456789'' ! n) = 48 + n"
  unfolding below_ten by (auto simp: charCode_def)

lemma digit_chars:
  "char_of (48::nat) = CHR ''0''" "char_of (49::nat) = CHR ''1''" "char_of (50::nat) = CHR ''2''"
  "char_of (51::nat) = CHR ''3''" "char_of (52::nat) = CHR ''4''" "char_of (53::nat) = CHR ''5''"
  "char_of (54::nat) = CHR ''6''" "char_of (55::nat) = CHR ''7''" "char_of (56::nat) = CHR ''8''"
  "char_of (57::nat) = CHR ''9''"
  by code_simp+

lemma isDigit_cases:
  assumes "isDigit c"
  shows "c \<in> set ''0123456789''"
proof -
  define n where "n = charCode c"
  have c: "c = char_of n" by (simp add: n_def charCode_def)
  have "48 \<le> n" "n \<le> 57" using assms by (simp_all add: isDigit_def n_def)
  then have "n = 48 \<or> n = 49 \<or> n = 50 \<or> n = 51 \<or> n = 52 \<or> n = 53 \<or> n = 54 \<or> n = 55
      \<or> n = 56 \<or> n = 57" by arith
  then show ?thesis unfolding c by (auto simp: digit_chars)
qed

lemma isDigit_nth: "isDigit c \<Longrightarrow> ''0123456789'' ! (charCode c - 48) = c"
  using isDigit_cases [of c] by (auto simp: charCode_def)

lemma isDigit_digit: "n < 10 \<Longrightarrow> isDigit (''0123456789'' ! n)"
  by (simp add: isDigit_def charCode_digit)

lemma numVal_snoc: "numVal (s @ [c]) = 10 * numVal s + (int (charCode c) - 48)"
  by (simp add: numVal_def)

lemma digits_all: "list_all isDigit (digits n)"
proof (induction n rule: digits.induct)
  case (1 n)
  show ?case
  proof (cases "n < 10")
    case True
    then show ?thesis by (subst digits.simps) (simp add: isDigit_digit)
  next
    case False
    then show ?thesis using 1 by (subst digits.simps) (simp add: isDigit_digit)
  qed
qed

lemma numVal_digits: "numVal (digits n) = int n"
proof (induction n rule: digits.induct)
  case (1 n)
  show ?case
  proof (cases "n < 10")
    case True
    then show ?thesis
      by (subst digits.simps) (simp add: numVal_def charCode_digit)
  next
    case False
    have "numVal (digits n) = 10 * numVal (digits (n div 10)) + int (n mod 10)"
      using False by (subst digits.simps) (simp add: numVal_snoc charCode_digit)
    also have "\<dots> = int n" using 1 False by (simp add: zdiv_int zmod_int)
    finally show ?thesis .
  qed
qed

lemma digits_inject: "digits m = digits n \<Longrightarrow> m = n"
  by (metis numVal_digits of_nat_eq_iff)

lemma digits_nonempty: "digits n \<noteq> []"
proof -
  have "digits n = (if n < 10 then [''0123456789'' ! n]
               else digits (n div 10) @ [''0123456789'' ! (n mod 10)])"
    by (rule digits.simps)
  then show ?thesis by (metis append_is_Nil_conv list.distinct(1))
qed

section \<open>Chunk identifiers\<close>

lemma id_inject:
  assumes "n1 @ ''-chunk-'' @ digits i1 = n2 @ ''-chunk-'' @ digits i2"
  shows "n1 = n2 \<and> i1 = i2"
proof -
  have tw: "takeWhile isDigit (rev (n @ ''-chunk-'' @ digits i)) = rev (digits i)" for n i
  proof -
    have "\<And>x. x \<in> set (rev (digits i)) \<Longrightarrow> isDigit x"
      using digits_all [of i] by (simp add: list_all_iff)
    then have "takeWhile isDigit (rev (digits i) @ (rev ''-chunk-'' @ rev n)) =
        rev (digits i) @ takeWhile isDigit (rev ''-chunk-'' @ rev n)"
      by (rule takeWhile_append2)
    then show ?thesis by (simp add: isDigit_def charCode_def)
  qed
  have "rev (digits i1) = rev (digits i2)"
    by (metis tw assms)
  then have d: "digits i1 = digits i2" by (metis rev_rev_ident)
  then have i: "i1 = i2" by (rule digits_inject)
  have "n1 @ (''-chunk-'' @ digits i1) = n2 @ (''-chunk-'' @ digits i1)"
    using assms d by simp
  then have "n1 = n2" by (rule append_same_eq [THEN iffD1])
  then show ?thesis using i by simp
qed

lemma sourceName_makeChunk: "sourceName (metadata (makeChunk p md i cur)) = sourceName md"
  by (simp add: makeChunk_def sourceName_def split: option.splits)

lemma wellNamed_makeChunk: "wellNamed (makeChunk p md i cur)"
  unfolding wellNamed_def sourceName_makeChunk by (simp add: makeChunk_def)

lemma chunkLoop_emit:
  "len + length sentence > chunkSize p \<Longrightarrow> cur \<noteq> [] \<Longrightarrow>
   chunkLoop p md (sentence # rest) (cs, cur, len, idx) =
     chunkLoop p md rest
       (cs @ [makeChunk p md idx cur], overlapSeed p cur @ sentence @ '' '',
        length (overlapSeed p cur) + (length sentence + 1), idx + 1)"
  by (simp add: Let_def)

lemma chunkLoop_keep:
  "\<not> (len + length sentence > chunkSize p \<and> cur \<noteq> []) \<Longrightarrow>
   chunkLoop p md (sentence # rest) (cs, cur, len, idx) =
     chunkLoop p md rest
       (cs, cur @ sentence @ '' '', len + (length sentence + 1), idx)"
  by auto

lemma chunkLoop_indices:
  "chunkLoop p md ss (cs, cur, len, idx) = (cs', cur', len', idx') \<Longrightarrow>
   map (\<lambda>c. chunkIndex (metadata c)) cs = [0..<idx] \<Longrightarrow>
   map (\<lambda>c. chunkIndex (metadata c)) cs' = [0..<idx']"
proof (induction ss arbitrary: cs cur len idx)
  case Nil
  then show ?case by simp
next
  case (Cons sentence rest)
  show ?case
  proof (cases "len + length sentence > chunkSize p \<and> cur \<noteq> []")
    case True
    have "map (\<lambda>c. chunkIndex (metadata c)) (cs @ [makeChunk p md idx cur]) = [0..<idx + 1]"
      using Cons.prems(2) by (simp add: makeChunk_def)
    then show ?thesis
      using Cons.IH [of "cs @ [makeChunk p md idx cur]" _ _ "idx + 1"] Cons.prems(1) True
      by (simp add: chunkLoop_emit del: chunkLoop.simps)
  next
    case False
    then show ?thesis
      using Cons.IH [of cs _ _ idx] Cons.prems
      by (simp add: chunkLoop_keep del: chunkLoop.simps)
  qed
qed

lemma chunkLoop_all:
  "chunkLoop p md ss (cs, cur, len, idx) = (cs', cur', len', idx') \<Longrightarrow>
   (\<And>i b. P (makeChunk p md i b)) \<Longrightarrow> list_all P cs \<Longrightarrow> list_all P cs'"
proof (induction ss arbitrary: cs cur len idx)
  case Nil
  then show ?case by simp
next
  case (Cons sentence rest)
  show ?case
  proof (cases "len + length sentence > chunkSize p \<and> cur \<noteq> []")
    case True
    have "list_all P (cs @ [makeChunk p md idx cur])" using Cons.prems(2,3) by simp
    then show ?thesis
      using Cons.IH [of "cs @ [makeChunk p md idx cur]" _ _ "idx + 1"] Cons.prems(1,2) True
      by (simp add: chunkLoop_emit del: chunkLoop.simps)
  next
    case False
    then show ?thesis
      using Cons.IH [of cs _ _ idx] Cons.prems
      by (simp add: chunkLoop_keep del: chunkLoop.simps)
  qed
qed

lemma createChunks_all:
  assumes "\<And>i b. P (makeChunk p md i b)"
  shows "list_all P (createChunks p text md)"
proof -
  obtain cs cur len idx where
    l: "chunkLoop p md (splitIntoSentences text) ([], [], 0, 0) = (cs, cur, len, idx)"
    by (metis prod_cases4)
  have "list_all P cs" using chunkLoop_all [OF l, of P] assms by simp
  then show ?thesis using assms by (simp add: createChunks_def l)
qed

lemma createChunks_indices:
  "map (\<lambda>c. chunkIndex (metadata c)) (createChunks p text md) =
     [0..<length (createChunks p text md)]"
proof -
  obtain cs cur len idx where
    l: "chunkLoop p md (splitIntoSentences text) ([], [], 0, 0) = (cs, cur, len, idx)"
    by (metis prod_cases4)
  have m: "map (\<lambda>c. chunkIndex (metadata c)) cs = [0..<idx]"
    using chunkLoop_indices [OF l] by simp
  then have n: "length cs = idx" by (metis length_map length_upt minus_nat.diff_0)
  show ?thesis
  proof (cases "trim cur \<noteq> []")
    case True
    have "map (\<lambda>c. chunkIndex (metadata c)) (cs @ [makeChunk p md idx cur]) = [0..<idx + 1]"
      using m by (simp add: makeChunk_def)
    then show ?thesis using True n by (simp add: createChunks_def l)
  next
    case False
    then show ?thesis using m n by (simp add: createChunks_def l)
  qed
qed

lemma createChunks_ids:
  "map chunk_id (createChunks p text md) =
     map (\<lambda>i. sourceName md @ ''-chunk-'' @ digits i) [0..<length (createChunks p text md)]"
proof -
  have "list_all (\<lambda>c. wellNamed c \<and> sourceName (metadata c) = sourceName md)
      (createChunks p text md)"
    by (rule createChunks_all) (simp add: wellNamed_makeChunk sourceName_makeChunk)
  then have all: "\<And>c. c \<in> set (createChunks p text md) \<Longrightarrow>
      wellNamed c \<and> sourceName (metadata c) = sourceName md"
    by (simp add: list_all_iff)
  have "map chunk_id (createChunks p text md) =
      map (\<lambda>c. sourceName md @ ''-chunk-'' @ digits (chunkIndex (metadata c)))
        (createChunks p text md)"
  proof (rule map_cong [OF refl])
    fix c assume "c \<in> set (createChunks p text md)"
    then have "wellNamed c" "sourceName (metadata c) = sourceName md"
      using all by blast+
    then show "chunk_id c = sourceName md @ ''-chunk-'' @ digits (chunkIndex (metadata c))"
      by (simp add: wellNamed_def)
  qed
  also have "\<dots> = map (\<lambda>i. sourceName md @ ''-chunk-'' @ digits i)
      (map (\<lambda>c. chunkIndex (metadata c)) (createChunks p text md))"
    by (simp add: comp_def)
  also have "\<dots> = map (\<lambda>i. sourceName md @ ''-chunk-'' @ digits i)
      [0..<length (createChunks p text md)]"
    by (rule arg_cong [OF createChunks_indices])
  finally show ?thesis .
qed

lemma distinct_createChunks_ids: "distinct (map chunk_id (createChunks p text md))"
proof -
  have "inj_on (\<lambda>i. sourceName md @ ''-chunk-'' @ digits i)
      (set [0..<length (createChunks p text md)])"
  proof (rule inj_onI)
    fix i j
    assume "sourceName md @ ''-chunk-'' @ digits i = sourceName md @ ''-chunk-'' @ digits j"
    then show "i = j" by (rule id_inject [THEN conjunct2])
  qed
  then have "distinct (map (\<lambda>i. sourceName md @ ''-chunk-'' @ digits i)
      [0..<length (createChunks p text md)])"
    by (simp only: distinct_map distinct_upt simp_thms)
  then show ?thesis by (simp only: createChunks_ids [symmetric])
qed

lemma wellNamed_processChunk: "wellNamed c \<Longrightarrow> wellNamed (processChunk d (c, e))"
  by (simp add: wellNamed_def processChunk_def)

lemma wellNamed_addDocument:
  assumes "list_all wellNamed (chunks s)" "list_all wellNamed cs"
  shows "list_all wellNamed (chunks (addDocument embedder now d nm cs s))"
  using assms by (auto simp: chunks_addDocument list_all_iff wellNamed_processChunk)

lemma wellNamed_createChunks: "list_all wellNamed (createChunks p text md)"
  by (rule createChunks_all) (rule wellNamed_makeChunk)

lemma wellNamed_serverStep:
  assumes "list_all wellNamed (chunks s)"
  shows "list_all wellNamed (chunks (serverStep extname embedder s r))"
proof (cases r)
  case (Upload now d originalName body)
  show ?thesis
  proof (cases "processFile extname (DocumentProcessor None None) body originalName")
    case (Inl e)
    then show ?thesis using assms Upload by simp
  next
    case (Inr cs)
    then have "list_all wellNamed cs"
      by (auto simp: processFile_def Let_def wellNamed_createChunks split: if_splits)
    then show ?thesis using assms Upload Inr by (simp add: wellNamed_addDocument)
  qed
next
  case (IngestUrl now d u pageText pageTitle)
  then show ?thesis
    using assms by (simp add: wellNamed_addDocument processUrl_def wellNamed_createChunks)
next
  case (Delete d)
  then show ?thesis
    using assms by (auto simp: removeDocument_def list_all_iff)
next
  case ClearAll
  then show ?thesis by (simp add: clear_def)
qed

lemma wellNamed_serve: "list_all wellNamed (chunks (serve extname embedder reqs))"
proof (induction reqs rule: rev_induct)
  case Nil
  show ?case by (simp add: serve_def newVectorStore_def)
next
  case (snoc r reqs)
  then show ?case
    using wellNamed_serverStep [of "serve extname embedder reqs" extname embedder r]
    by (simp add: serve_def)
qed

text \<open>
  Claim C5, as stated, fails when two files are uploaded under one name: the first chunk of
  either document has the identifier \<open>a.txt-chunk-0\<close>.
\<close>

theorem same_name_counterexample:
  "\<not> distinct (map chunk_id (chunks (serve (\<lambda>n. ''.txt'') (\<lambda>t. [1, 0]) sameNameUploads)))"
  by code_simp

text \<open>
  Claim C5, amended. In every state that the uploads, URL ingestions, deletions and clearings
  of the server produce, the identifier of each chunk of the index is
  \<open><source-name>-chunk-<index>\<close>, with the source name and the chunk index of its metadata,
  and two chunks of the index have the same identifier exactly when they have the same source
  name and the same chunk index. The chunks that the chunker makes of one text have pairwise
  distinct identifiers.
\<close>

theorem chunk_ids_by_name_and_index:
  "(\<forall>c \<in> set (chunks (serve extname embedder reqs)).
      chunk_id c = sourceName (metadata c) @ ''-chunk-'' @ digits (chunkIndex (metadata c)))
   \<and> (\<forall>c \<in> set (chunks (serve extname embedder reqs)).
       \<forall>c' \<in> set (chunks (serve extname embedder reqs)).
         chunk_id c = chunk_id c' \<longleftrightarrow>
           sourceName (metadata c) = sourceName (metadata c')
           \<and> chunkIndex (metadata c) = chunkIndex (metadata c'))
   \<and> distinct (map chunk_id (createChunks p text md))"
proof (intro conjI ballI)
  fix c assume c: "c \<in> set (chunks (serve extname embedder reqs))"
  then show n: "chunk_id c =
      sourceName (metadata c) @ ''-chunk-'' @ digits (chunkIndex (metadata c))"
    using wellNamed_serve [of extname embedder reqs] by (simp add: list_all_iff wellNamed_def)
  fix c' assume "c' \<in> set (chunks (serve extname embedder reqs))"
  then have n': "chunk_id c' =
      sourceName (metadata c') @ ''-chunk-'' @ digits (chunkIndex (metadata c'))"
    using wellNamed_serve [of extname embedder reqs] by (simp add: list_all_iff wellNamed_def)
  show "chunk_id c = chunk_id c' \<longleftrightarrow>
      sourceName (metadata c) = sourceName (metadata c')
      \<and> chunkIndex (metadata c) = chunkIndex (metadata c')"
  proof
    assume "chunk_id c = chunk_id c'"
    then have "sourceName (metadata c) @ ''-chunk-'' @ digits (chunkIndex (metadata c)) =
        sourceName (metadata c') @ ''-chunk-'' @ digits (chunkIndex (metadata c'))"
      by (simp only: n n')
    then show "sourceName (metadata c) = sourceName (metadata c')
        \<and> chunkIndex (metadata c) = chunkIndex (metadata c')"
      by (rule id_inject)
  next
    assume "sourceName (metadata c) = sourceName (metadata c')
        \<and> chunkIndex (metadata c) = chunkIndex (metadata c')"
    then show "chunk_id c = chunk_id c'" by (simp only: n n')
  qed
next
  show "distinct (map chunk_id (createChunks p text md))"
    by (rule distinct_createChunks_ids)
qed

theorem chunk_ids_by_name_and_index_witness:
  "map chunk_id (chunks (serve (\<lambda>n. ''.txt'') (\<lambda>t. [1, 0]) exampleUploads)) =
     [''a.txt-chunk-0'', ''b.txt-chunk-0'']
   \<and> list_all wellNamed (chunks (serve (\<lambda>n. ''.txt'') (\<lambda>t. [1, 0]) exampleUploads))
   \<and> distinct (map chunk_id (chunks (serve (\<lambda>n. ''.txt'') (\<lambda>t. [1, 0]) exampleUploads)))
   \<and> distinct (map chunk_id (createChunks (DocumentProcessor None None) ''Cats purr.''
        \<lparr>filename = Some ''a.txt'', url = None, mtype = ''.txt'', title = None\<rparr>))"
proof -
  have ids: "map chunk_id (chunks (serve (\<lambda>n. ''.txt'') (\<lambda>t. [1, 0]) exampleUploads)) =
     [''a.txt-chunk-0'', ''b.txt-chunk-0'']"
    by code_simp
  show ?thesis
    using chunk_ids_by_name_and_index [of "\<lambda>n. ''.txt''" "\<lambda>t. [1, 0]" exampleUploads
        "DocumentProcessor None None" "''Cats purr.''"
        "\<lparr>filename = Some ''a.txt'', url = None, mtype = ''.txt'', title = None\<rparr>"]
    by (simp add: ids list_all_iff wellNamed_def)
qed

section \<open>The chunker\<close>

lemma trimmed_trim: "trimmed (trim s)"
proof (cases "trim s = []")
  case True
  then show ?thesis by (simp add: trimmed_def)
next
  case False
  let ?a = "dropWhile isSpace s"
  let ?b = "dropWhile isSpace (rev ?a)"
  have b: "?b \<noteq> []" using False by (simp add: trim_def)
  then have hb: "\<not> isSpace (hd ?b)" by (rule hd_dropWhile)
  have a: "?a \<noteq> []" using b by (cases "?a = []") simp_all
  then have ha: "\<not> isSpace (hd ?a)" by (rule hd_dropWhile)
  have "last (rev ?b) = hd ?b" using b by (simp add: last_rev)
  moreover have "hd (rev ?b) = last ?b" using b by (simp add: hd_rev)
  moreover have "last ?b = last (rev ?a)"
    using b by (metis last_appendR takeWhile_dropWhile_id)
  moreover have "last (rev ?a) = hd ?a" using a by (simp add: last_rev)
  ultimately show ?thesis using hb ha False by (simp add: trimmed_def trim_def)
qed

lemma length_trim_le: "length (trim s) \<le> length s"
proof -
  have "length (trim s) \<le> length (dropWhile isSpace s)"
    using length_dropWhile_le [of isSpace "rev (dropWhile isSpace s)"] by (simp add: trim_def)
  also have "\<dots> \<le> length s" by (rule length_dropWhile_le)
  finally show ?thesis .
qed

lemma length_trim_space:
  assumes "s \<noteq> []" "isSpace (last s)"
  shows "length (trim s) < length s"
proof (cases "dropWhile isSpace s = []")
  case True
  then have "trim s = []" by (simp only: trim_def rev.simps dropWhile.simps)
  then show ?thesis using assms(1) by simp
next
  case False
  let ?a = "dropWhile isSpace s"
  have "last ?a = last s"
    using False by (metis last_appendR takeWhile_dropWhile_id)
  then have "isSpace (hd (rev ?a))" using False assms(2) by (simp add: hd_rev)
  then have "length (dropWhile isSpace (rev ?a)) < length (rev ?a)"
    using False by (cases "rev ?a") (auto simp: le_imp_less_Suc length_dropWhile_le)
  then have "length (trim s) < length ?a" by (simp add: trim_def)
  also have "\<dots> \<le> length s" by (rule length_dropWhile_le)
  finally show ?thesis .
qed

lemma trimmed_makeChunk: "trimmed (content (makeChunk p md i cur))"
  by (simp add: makeChunk_def trimmed_trim)

lemma createChunks_trimmed: "list_all (\<lambda>c. trimmed (content c)) (createChunks p text md)"
  by (rule createChunks_all) (rule trimmed_makeChunk)

lemma chunkLoop_hd:
  "chunkLoop p md ss (cs, cur, len, idx) = (cs', cur', len', idx') \<Longrightarrow> cs \<noteq> [] \<Longrightarrow>
     cs' \<noteq> [] \<and> hd cs' = hd cs"
proof (induction ss arbitrary: cs cur len idx)
  case Nil
  then show ?case by simp
next
  case (Cons sentence rest)
  show ?case
  proof (cases "len + length sentence > chunkSize p \<and> cur \<noteq> []")
    case True
    then show ?thesis
      using Cons.IH [of "cs @ [makeChunk p md idx cur]" _ _ "idx + 1"] Cons.prems
      by (simp add: chunkLoop_emit del: chunkLoop.simps)
  next
    case False
    then show ?thesis
      using Cons.IH [of cs _ _ idx] Cons.prems
      by (simp add: chunkLoop_keep del: chunkLoop.simps)
  qed
qed

text \<open>While no chunk has been emitted, the buffer ends in the space put behind the last
  sentence and is at most one longer than the bound.\<close>

lemma chunkLoop_first:
  assumes "chunkLoop p md ss ([], cur, len, idx) = (cs', cur', len', idx')"
    and "len = length cur"
    and "cur \<noteq> [] \<longrightarrow> last cur = CHR '' ''"
    and "length cur \<le> B + 1"
    and "chunkSize p \<le> B"
    and "cur = [] \<longrightarrow> ss = [] \<or> length (hd ss) \<le> B"
  shows "(cs' \<noteq> [] \<longrightarrow> length (content (hd cs')) \<le> B)
       \<and> (cs' = [] \<longrightarrow> (cur' \<noteq> [] \<longrightarrow> last cur' = CHR '' '') \<and> length cur' \<le> B + 1)"
  using assms
proof (induction ss arbitrary: cur len)
  case Nil
  then show ?case by simp
next
  case (Cons sentence rest)
  show ?case
  proof (cases "len + length sentence > chunkSize p \<and> cur \<noteq> []")
    case True
    have sp: "isSpace (last cur)" using True Cons.prems(3) by (simp add: isSpace_def charCode_def)
    have "length (trim cur) < length cur" using True sp by (intro length_trim_space) simp_all
    then have le: "length (content (makeChunk p md idx cur)) \<le> B"
      using Cons.prems(4) by (simp add: makeChunk_def)
    have "chunkLoop p md rest
       ([] @ [makeChunk p md idx cur], overlapSeed p cur @ sentence @ '' '',
        length (overlapSeed p cur) + (length sentence + 1), idx + 1) = (cs', cur', len', idx')"
      using Cons.prems(1) True by (simp add: chunkLoop_emit del: chunkLoop.simps)
    then have "cs' \<noteq> [] \<and> hd cs' = makeChunk p md idx cur"
      using chunkLoop_hd by fastforce
    then show ?thesis using le by simp
  next
    case noemit: False
    let ?cur = "cur @ sentence @ '' ''"
    have step: "chunkLoop p md rest ([], ?cur, len + (length sentence + 1), idx) =
        (cs', cur', len', idx')"
      using Cons.prems(1) noemit by (simp add: chunkLoop_keep del: chunkLoop.simps)
    have len: "length ?cur \<le> B + 1"
    proof (cases "cur = []")
      case True
      then show ?thesis using Cons.prems(6) by simp
    next
      case False
      then have "len + length sentence \<le> chunkSize p" using noemit by simp
      then show ?thesis using Cons.prems(2,5) by simp
    qed
    show ?thesis
      by (rule Cons.IH [OF step _ _ len Cons.prems(5)]) (simp_all add: Cons.prems(2))
  qed
qed

lemma createChunks_first:
  assumes "createChunks p text md \<noteq> []"
  shows "length (content (hd (createChunks p text md)))
     \<le> max (chunkSize p) (length (hd (splitIntoSentences text)))"
proof -
  let ?B = "max (chunkSize p) (length (hd (splitIntoSentences text)))"
  obtain cs cur len idx where
    l: "chunkLoop p md (splitIntoSentences text) ([], [], 0, 0) = (cs, cur, len, idx)"
    by (metis prod_cases4)
  have f: "(cs \<noteq> [] \<longrightarrow> length (content (hd cs)) \<le> ?B)
       \<and> (cs = [] \<longrightarrow> (cur \<noteq> [] \<longrightarrow> last cur = CHR '' '') \<and> length cur \<le> ?B + 1)"
    by (rule chunkLoop_first [OF l]) simp_all
  show ?thesis
  proof (cases "cs = []")
    case False
    then show ?thesis using f by (simp add: createChunks_def l hd_append)
  next
    case True
    then have t: "trim cur \<noteq> []" using assms by (simp add: createChunks_def l split: if_splits)
    then have c: "cur \<noteq> []" by (auto simp: trim_def)
    then have "isSpace (last cur)" using f True by (simp add: isSpace_def charCode_def)
    then have "length (trim cur) < length cur" using c by (intro length_trim_space)
    then have "length (trim cur) \<le> ?B" using f True by simp
    then show ?thesis using True t by (simp add: createChunks_def l makeChunk_def)
  qed
qed

lemma overlapSeed_form:
  "\<exists>k. overlapSeed p b = joinWith '' '' (sliceLast k (splitOnSpace [] b)) @ '' ''"
  by (auto simp: overlapSeed_def Let_def)

text \<open>A rule for invariants of the loop: one that holds of the chunks and the buffer at the
  start, and is kept where a chunk is emitted and where a sentence is appended, holds at the
  end.\<close>

lemma chunkLoop_invariant:
  assumes "chunkLoop p md ss (cs, cur, len, idx) = (cs', cur', len', idx')"
    and "len = length cur"
    and "I cs cur"
    and emit: "\<And>cs cur s i. s \<in> set ss \<Longrightarrow> I cs cur \<Longrightarrow> cur \<noteq> [] \<Longrightarrow>
        I (cs @ [makeChunk p md i cur]) (overlapSeed p cur @ s @ '' '')"
    and keep: "\<And>cs cur s. s \<in> set ss \<Longrightarrow> I cs cur \<Longrightarrow>
        \<not> (length cur + length s > chunkSize p \<and> cur \<noteq> []) \<Longrightarrow> I cs (cur @ s @ '' '')"
  shows "I cs' cur' \<and> len' = length cur'"
  using assms
proof (induction ss arbitrary: cs cur len idx)
  case Nil
  then show ?case by auto
next
  case (Cons sentence rest)
  show ?case
  proof (cases "len + length sentence > chunkSize p \<and> cur \<noteq> []")
    case True
    have step: "chunkLoop p md rest
       (cs @ [makeChunk p md idx cur], overlapSeed p cur @ sentence @ '' '',
        length (overlapSeed p cur) + (length sentence + 1), idx + 1) = (cs', cur', len', idx')"
      using Cons.prems(1) True by (simp add: chunkLoop_emit del: chunkLoop.simps)
    have i: "I (cs @ [makeChunk p md idx cur]) (overlapSeed p cur @ sentence @ '' '')"
      using Cons.prems(3) True by (intro Cons.prems(4)) simp_all
    show ?thesis
      by (rule Cons.IH [OF step _ i]) (simp_all add: Cons.prems(4,5))
  next
    case False
    have step: "chunkLoop p md rest (cs, cur @ sentence @ '' '', len + (length sentence + 1), idx) =
        (cs', cur', len', idx')"
      using Cons.prems(1) False by (simp add: chunkLoop_keep del: chunkLoop.simps)
    have i: "I cs (cur @ sentence @ '' '')"
      using Cons.prems(2,3) False by (intro Cons.prems(5)) simp_all
    show ?thesis
      by (rule Cons.IH [OF step _ i]) (simp_all add: Cons.prems(2,4,5))
  qed
qed

text \<open>A chunk after the first is within the chunk size unless its buffer is the seed taken
  from the buffer of the chunk before it, followed by one sentence. The seed is the last \<open>k\<close>
  of the pieces between the single spaces of that buffer, joined by spaces, and a space; the
  statement leaves \<open>k\<close> open.\<close>

lemma createChunks_later:
  fixes p :: processor
  assumes "0 < i" "i < length (createChunks p body md)"
  shows "length (content (createChunks p body md ! i)) \<le> chunkSize p
     \<or> (\<exists>sentence\<in>set (splitIntoSentences body). \<exists>b k.
          b \<noteq> [] \<and> last b = CHR '' '' \<and> content (createChunks p body md ! (i - 1)) = trim b
          \<and> content (createChunks p body md ! i) =
              trim (joinWith '' '' (sliceLast k (splitOnSpace [] b)) @ '' '' @ sentence @ '' ''))"
proof -
  define A where "A = set (splitIntoSentences body)"
  define from_seed where "from_seed = (\<lambda>prev cur. \<exists>sentence\<in>A. \<exists>b k.
      b \<noteq> [] \<and> last b = CHR '' '' \<and> prev = trim b
      \<and> cur = joinWith '' '' (sliceLast k (splitOnSpace [] b)) @ '' '' @ sentence @ '' '')"
  define C where "C = (\<lambda>cs :: chunk list. \<forall>j. 0 < j \<and> j < length cs \<longrightarrow>
      length (content (cs ! j)) \<le> chunkSize p
      \<or> (\<exists>cur. from_seed (content (cs ! (j - 1))) cur \<and> content (cs ! j) = trim cur))"
  define G where "G = (\<lambda>(cs :: chunk list) cur. (cur = [] \<or> last cur = CHR '' '')
      \<and> (cs \<noteq> [] \<longrightarrow> cur \<noteq> [] \<and> (length cur \<le> chunkSize p + 1 \<or> from_seed (content (last cs)) cur)))"
  have snoc: "C (cs @ [makeChunk p md n cur])" if "C cs" "G cs cur" "cur \<noteq> []" for cs cur n
    unfolding C_def
  proof (intro allI impI)
    fix j
    assume j: "0 < j \<and> j < length (cs @ [makeChunk p md n cur])"
    show "length (content ((cs @ [makeChunk p md n cur]) ! j)) \<le> chunkSize p
      \<or> (\<exists>c. from_seed (content ((cs @ [makeChunk p md n cur]) ! (j - 1))) c
            \<and> content ((cs @ [makeChunk p md n cur]) ! j) = trim c)"
    proof (cases "j < length cs")
      case True
      then have "j - 1 < length cs" by simp
      then show ?thesis using that(1) j True by (simp add: C_def nth_append)
    next
      case False
      then have e: "j = length cs" using j by simp
      then have ne: "cs \<noteq> []" using j by auto
      have prev: "(cs @ [makeChunk p md n cur]) ! (j - 1) = last cs"
        using e ne by (simp add: nth_append last_conv_nth)
      have this_one: "content ((cs @ [makeChunk p md n cur]) ! j) = trim cur"
        using e by (simp add: makeChunk_def)
      have sp: "isSpace (last cur)" using that(2,3) by (simp add: G_def isSpace_def charCode_def)
      have lt: "length (trim cur) < length cur" using that(3) sp by (rule length_trim_space)
      from that(2) ne have "length cur \<le> chunkSize p + 1 \<or> from_seed (content (last cs)) cur"
        by (simp add: G_def)
      then show ?thesis
      proof
        assume "length cur \<le> chunkSize p + 1"
        then show ?thesis using lt this_one by simp
      next
        assume "from_seed (content (last cs)) cur"
        then show ?thesis using prev this_one by auto
      qed
    qed
  qed
  obtain cs cur len idx where
    l: "chunkLoop p md (splitIntoSentences body) ([], [], 0, 0) = (cs, cur, len, idx)"
    by (metis prod_cases4)
  have inv: "(C cs \<and> G cs cur) \<and> len = length cur"
  proof (rule chunkLoop_invariant [OF l, where I = "\<lambda>cs cur. C cs \<and> G cs cur"])
    show "C [] \<and> G [] []" by (simp add: C_def G_def)
  next
    fix cs cur s n
    assume s: "s \<in> set (splitIntoSentences body)" and i: "C cs \<and> G cs cur" and c: "cur \<noteq> []"
    obtain k where k: "overlapSeed p cur = joinWith '' '' (sliceLast k (splitOnSpace [] cur)) @ '' ''"
      using overlapSeed_form by blast
    have "last cur = CHR '' ''" using i c by (simp add: G_def)
    then have "from_seed (trim cur) (overlapSeed p cur @ s @ '' '')"
      using s c k unfolding from_seed_def A_def by auto
    then have "G (cs @ [makeChunk p md n cur]) (overlapSeed p cur @ s @ '' '')"
      by (simp add: G_def makeChunk_def)
    then show "C (cs @ [makeChunk p md n cur]) \<and>
        G (cs @ [makeChunk p md n cur]) (overlapSeed p cur @ s @ '' '')"
      using snoc i c by simp
  next
    fix cs cur and s :: string
    assume i: "C cs \<and> G cs cur"
      and n: "\<not> (length cur + length s > chunkSize p \<and> cur \<noteq> [])"
    have "G cs (cur @ s @ '' '')"
      using i n by (auto simp: G_def)
    then show "C cs \<and> G cs (cur @ s @ '' '')" using i by simp
  qed simp
  have "C (createChunks p body md)"
  proof (cases "trim cur \<noteq> []")
    case True
    then have "cur \<noteq> []" by (auto simp: trim_def)
    then show ?thesis using True inv snoc by (simp add: createChunks_def l)
  next
    case False
    then show ?thesis using inv by (simp add: createChunks_def l)
  qed
  then show ?thesis using assms unfolding C_def from_seed_def A_def by auto
qed


subsection \<open>A text without white space\<close>

lemma space_chars: "isSpace newline" "isSpace carriageReturn" "isSpace (CHR '' '')"
  by (simp_all add: isSpace_def newline_def carriageReturn_def charCode_def)

lemma replaceCRLF_plain: "list_all (\<lambda>c. \<not> isSpace c) s \<Longrightarrow> replaceCRLF s = s"
  by (induction s rule: replaceCRLF.induct) (use space_chars in auto)

lemma collapseNewlines_plain: "list_all (\<lambda>c. \<not> isSpace c) s \<Longrightarrow> collapseNewlines s = s"
  by (induction s) (use space_chars in auto)

lemma splitSentences_plain:
  "list_all (\<lambda>c. \<not> isSpace c) s \<Longrightarrow> splitSentences b cur s = [cur @ s]"
  by (induction s arbitrary: b cur) (use space_chars in auto)

lemma trim_plain:
  assumes "s \<noteq> []" "list_all (\<lambda>c. \<not> isSpace c) s"
  shows "trim s = s" "trim (s @ '' '') = s"
proof -
  have h: "\<not> isSpace (hd s)" using assms by (cases s) auto
  have l: "\<not> isSpace (last s)" using assms by (simp add: list_all_iff)
  have d: "dropWhile isSpace s = s" using h assms(1) by (cases s) auto
  have r: "dropWhile isSpace (rev s) = rev s"
    using l assms(1) by (cases "rev s") (auto simp: hd_rev [symmetric])
  show "trim s = s" by (simp add: trim_def d r)
  have "dropWhile isSpace (s @ '' '') = s @ '' ''" using h assms(1) by (cases s) auto
  then show "trim (s @ '' '') = s" by (simp add: trim_def r space_chars)
qed

lemma createChunks_plain:
  assumes "s \<noteq> []" "list_all (\<lambda>c. \<not> isSpace c) s"
  shows "map content (createChunks p s md) = [s]"
proof -
  have "splitIntoSentences s = [s]"
    using assms
    by (simp add: splitIntoSentences_def replaceCRLF_plain collapseNewlines_plain
        splitSentences_plain trim_plain)
  then show ?thesis
    using assms by (simp add: createChunks_def trim_plain makeChunk_def)
qed

lemma two_sentences:
  "map content
     (createChunks (DocumentProcessor (Some 20) (Some 5))
        ''aaaa bbbb cccc dddd. eeee ffff gggg hhhh.'' exampleMetadata) =
     [''aaaa bbbb cccc dddd.'', ''dddd.  eeee ffff gggg hhhh.'']"
  by code_simp

lemma two_sentences_split:
  "splitIntoSentences ''aaaa bbbb cccc dddd. eeee ffff gggg hhhh.'' =
     [''aaaa bbbb cccc dddd.'', ''eeee ffff gggg hhhh.'']"
  by code_simp

lemma two_sentences_seed:
  "trim ''aaaa bbbb cccc dddd. '' = ''aaaa bbbb cccc dddd.''"
  "trim (joinWith '' '' (sliceLast 2 (splitOnSpace [] ''aaaa bbbb cccc dddd. '')) @ '' ''
     @ ''eeee ffff gggg hhhh.'' @ '' '') = ''dddd.  eeee ffff gggg hhhh.''"
  by code_simp+

text \<open>
  Claim C9, as stated, fails in two ways. A sentence longer than the chunk size is never
  split: a text of 801 letters gives, with the defaults, one chunk of 801 characters. And the
  seed taken over from the previous chunk is put before the next sentence without a check:
  with a chunk size of 20 and an overlap of 5, two sentences of 20 characters give a second
  chunk of 27 characters.
\<close>

theorem chunk_size_counterexample:
  "\<not> list_all (withinChunkSize (DocumentProcessor None None))
       (createChunks (DocumentProcessor None None) (replicate 801 (CHR ''a'')) exampleMetadata)
   \<and> \<not> list_all (withinChunkSize (DocumentProcessor (Some 20) (Some 5)))
       (createChunks (DocumentProcessor (Some 20) (Some 5))
          ''aaaa bbbb cccc dddd. eeee ffff gggg hhhh.'' exampleMetadata)"
proof
  have "list_all (\<lambda>c. \<not> isSpace c) (replicate 801 (CHR ''a''))"
    by (simp add: list_all_iff isSpace_def charCode_def)
  then have "map content
      (createChunks (DocumentProcessor None None) (replicate 801 (CHR ''a'')) exampleMetadata) =
      [replicate 801 (CHR ''a'')]"
    by (intro createChunks_plain) simp_all
  then obtain c where "createChunks (DocumentProcessor None None) (replicate 801 (CHR ''a''))
      exampleMetadata = [c]" "content c = replicate 801 (CHR ''a'')"
    by auto
  then show "\<not> list_all (withinChunkSize (DocumentProcessor None None))
       (createChunks (DocumentProcessor None None) (replicate 801 (CHR ''a'')) exampleMetadata)"
    by (simp add: withinChunkSize_def DocumentProcessor_def optionOr_def)
next
  obtain c c' where "createChunks (DocumentProcessor (Some 20) (Some 5))
      ''aaaa bbbb cccc dddd. eeee ffff gggg hhhh.'' exampleMetadata = [c, c']"
    "content c' = ''dddd.  eeee ffff gggg hhhh.''"
    using two_sentences by auto
  then show "\<not> list_all (withinChunkSize (DocumentProcessor (Some 20) (Some 5)))
       (createChunks (DocumentProcessor (Some 20) (Some 5))
          ''aaaa bbbb cccc dddd. eeee ffff gggg hhhh.'' exampleMetadata)"
    by (simp add: withinChunkSize_def DocumentProcessor_def optionOr_def)
qed

text \<open>
  Claim C9, amended. The content of every chunk that the chunker produces is trimmed. The
  content of the first chunk is at most as long as the chunk size or, if that is longer, the
  first sentence. The content of every later chunk is at most as long as the chunk size, unless
  its buffer holds one sentence behind the seed taken over from the buffer of the chunk before
  it: then the content is that seed and that sentence, trimmed, where the seed is some of the
  last pieces between the single spaces of the earlier buffer, joined by spaces and followed
  by a space.
\<close>

theorem chunk_content_trimmed_bounded:
  "list_all (\<lambda>c. trimmed (content c)) (createChunks p text md)
   \<and> (createChunks p text md \<noteq> [] \<longrightarrow>
        length (content (hd (createChunks p text md)))
          \<le> max (chunkSize p) (length (hd (splitIntoSentences text))))
   \<and> (\<forall>i. 0 < i \<and> i < length (createChunks p text md) \<longrightarrow>
        length (content (createChunks p text md ! i)) \<le> chunkSize p
        \<or> (\<exists>sentence\<in>set (splitIntoSentences text). \<exists>b k.
              b \<noteq> [] \<and> last b = CHR '' ''
              \<and> content (createChunks p text md ! (i - 1)) = trim b
              \<and> content (createChunks p text md ! i) =
                  trim (joinWith '' '' (sliceLast k (splitOnSpace [] b)) @ '' ''
                    @ sentence @ '' '')))"
  using createChunks_trimmed [of p "text" md] createChunks_first [of p "text" md]
    createChunks_later [of _ p "text" md]
  by blast

theorem chunk_content_trimmed_bounded_witness:
  "map content
     (createChunks (DocumentProcessor (Some 20) (Some 5))
        ''aaaa bbbb cccc dddd. eeee ffff gggg hhhh.'' exampleMetadata) =
     [''aaaa bbbb cccc dddd.'', ''dddd.  eeee ffff gggg hhhh.'']
   \<and> list_all (\<lambda>c. trimmed (content c))
       (createChunks (DocumentProcessor (Some 20) (Some 5))
          ''aaaa bbbb cccc dddd. eeee ffff gggg hhhh.'' exampleMetadata)
   \<and> length (content (hd (createChunks (DocumentProcessor (Some 20) (Some 5))
          ''aaaa bbbb cccc dddd. eeee ffff gggg hhhh.'' exampleMetadata))) \<le> 20
   \<and> (\<exists>sentence\<in>{''aaaa bbbb cccc dddd.'', ''eeee ffff gggg hhhh.''}. \<exists>b k.
          b \<noteq> [] \<and> last b = CHR '' '' \<and> ''aaaa bbbb cccc dddd.'' = trim b
          \<and> ''dddd.  eeee ffff gggg hhhh.'' =
              trim (joinWith '' '' (sliceLast k (splitOnSpace [] b)) @ '' '' @ sentence @ '' ''))
   \<and> trim ''aaaa bbbb cccc dddd. '' = ''aaaa bbbb cccc dddd.''
   \<and> trim (joinWith '' '' (sliceLast 2 (splitOnSpace [] ''aaaa bbbb cccc dddd. '')) @ '' ''
        @ ''eeee ffff gggg hhhh.'' @ '' '') = ''dddd.  eeee ffff gggg hhhh.''"
proof -
  let ?cs = "createChunks (DocumentProcessor (Some 20) (Some 5))
          ''aaaa bbbb cccc dddd. eeee ffff gggg hhhh.'' exampleMetadata"
  obtain c c' where cs: "?cs = [c, c']" "content c = ''aaaa bbbb cccc dddd.''"
    "content c' = ''dddd.  eeee ffff gggg hhhh.''"
    using two_sentences by auto
  have all: "list_all (\<lambda>c. trimmed (content c)) ?cs
    \<and> (?cs \<noteq> [] \<longrightarrow> length (content (hd ?cs)) \<le> max (chunkSize (DocumentProcessor (Some 20) (Some 5)))
          (length (hd (splitIntoSentences ''aaaa bbbb cccc dddd. eeee ffff gggg hhhh.''))))
    \<and> (\<forall>i. 0 < i \<and> i < length ?cs \<longrightarrow>
        length (content (?cs ! i)) \<le> chunkSize (DocumentProcessor (Some 20) (Some 5))
        \<or> (\<exists>sentence\<in>set (splitIntoSentences ''aaaa bbbb cccc dddd. eeee ffff gggg hhhh.''). \<exists>b k.
              b \<noteq> [] \<and> last b = CHR '' ''
              \<and> content (?cs ! (i - 1)) = trim b
              \<and> content (?cs ! i) =
                  trim (joinWith '' '' (sliceLast k (splitOnSpace [] b)) @ '' ''
                    @ sentence @ '' '')))"
    by (rule chunk_content_trimmed_bounded)
  then have t: "list_all (\<lambda>c. trimmed (content c)) ?cs" by blast
  from all have "length (content (hd ?cs)) \<le> max (chunkSize (DocumentProcessor (Some 20) (Some 5)))
          (length (hd (splitIntoSentences ''aaaa bbbb cccc dddd. eeee ffff gggg hhhh.'')))"
    using cs(1) by simp
  then have f: "length (content (hd ?cs)) \<le> 20"
    by (simp add: two_sentences_split DocumentProcessor_def optionOr_def)
  from all have "0 < (1::nat) \<and> 1 < length ?cs \<longrightarrow>
        length (content (?cs ! 1)) \<le> chunkSize (DocumentProcessor (Some 20) (Some 5))
        \<or> (\<exists>sentence\<in>set (splitIntoSentences ''aaaa bbbb cccc dddd. eeee ffff gggg hhhh.''). \<exists>b k.
              b \<noteq> [] \<and> last b = CHR '' ''
              \<and> content (?cs ! (1 - 1)) = trim b
              \<and> content (?cs ! 1) =
                  trim (joinWith '' '' (sliceLast k (splitOnSpace [] b)) @ '' ''
                    @ sentence @ '' ''))"
    by blast
  then have l: "\<exists>sentence\<in>{''aaaa bbbb cccc dddd.'', ''eeee ffff gggg hhhh.''}. \<exists>b k.
          b \<noteq> [] \<and> last b = CHR '' '' \<and> ''aaaa bbbb cccc dddd.'' = trim b
          \<and> ''dddd.  eeee ffff gggg hhhh.'' =
              trim (joinWith '' '' (sliceLast k (splitOnSpace [] b)) @ '' '' @ sentence @ '' '')"
    unfolding cs two_sentences_split
    by (simp add: cs(2,3) DocumentProcessor_def optionOr_def)
  show ?thesis
    using t f l two_sentences two_sentences_seed by blast
qed

section \<open>The keyword extractor\<close>

subsection \<open>First occurrences\<close>

lemma set_firstOccurrences: "set (firstOccurrences xs) = set xs"
  by (induction xs rule: firstOccurrences.induct) auto

lemma distinct_firstOccurrences: "distinct (firstOccurrences xs)"
  by (induction xs rule: firstOccurrences.induct) (auto simp: set_firstOccurrences)

lemma firstOccurrences_snoc:
  "firstOccurrences (xs @ [w]) =
     (if w \<in> set xs then firstOccurrences xs else firstOccurrences xs @ [w])"
proof (induction xs rule: firstOccurrences.induct)
  case 1
  show ?case by simp
next
  case (2 x xs)
  show ?case
  proof (cases "w = x")
    case True
    then show ?thesis by simp
  next
    case False
    then have "filter (\<lambda>y. y \<noteq> x) (xs @ [w]) = filter (\<lambda>y. y \<noteq> x) xs @ [w]" by simp
    then show ?thesis using 2 False by auto
  qed
qed

subsection \<open>Array indices\<close>

lemma digit_value: "isDigit c \<Longrightarrow> 0 \<le> int (charCode c) - 48 \<and> int (charCode c) - 48 < 10"
  by (simp add: isDigit_def)

lemma digit_value_pos: "isDigit c \<Longrightarrow> c \<noteq> CHR ''0'' \<Longrightarrow> 1 \<le> int (charCode c) - 48"
  using isDigit_cases [of c] by (auto simp: charCode_def)

lemma numVal_nonneg: "list_all isDigit s \<Longrightarrow> 0 \<le> numVal s"
proof (induction s rule: rev_induct)
  case Nil
  show ?case by (simp add: numVal_def)
next
  case (snoc c s)
  then show ?case using digit_value [of c] by (simp add: numVal_snoc)
qed

lemma numVal_pos:
  "s \<noteq> [] \<Longrightarrow> list_all isDigit s \<Longrightarrow> hd s \<noteq> CHR ''0'' \<Longrightarrow> 0 < numVal s"
proof (induction s rule: rev_induct)
  case Nil
  then show ?case by simp
next
  case (snoc c s)
  show ?case
  proof (cases "s = []")
    case True
    then show ?thesis
      using snoc.prems digit_value_pos [of c] by (simp add: numVal_def)
  next
    case False
    then have "0 < numVal s" using snoc by simp
    then show ?thesis using snoc.prems digit_value [of c] by (simp add: numVal_snoc)
  qed
qed

lemma canonical_digits:
  "s \<noteq> [] \<Longrightarrow> list_all isDigit s \<Longrightarrow> hd s \<noteq> CHR ''0'' \<or> s = ''0'' \<Longrightarrow>
     digits (nat (numVal s)) = s"
proof (induction s rule: rev_induct)
  case Nil
  then show ?case by simp
next
  case (snoc c s)
  have c: "isDigit c" using snoc.prems(2) by simp
  define d where "d = nat (int (charCode c) - 48)"
  have d1: "d < 10" using digit_value [OF c] unfolding d_def by linarith
  have d2: "int d = int (charCode c) - 48" using digit_value [OF c] unfolding d_def by linarith
  have "d = charCode c - 48" unfolding d_def by linarith
  then have d3: "''0123456789'' ! d = c" using isDigit_nth [OF c] by simp
  note d = d1 d2 d3
  show ?case
  proof (cases "s = []")
    case True
    have "numVal [c] = int d" using d by (simp add: numVal_def)
    then have "digits (nat (numVal [c])) = digits d" by simp
    also have "\<dots> = [c]" using d by (subst digits.simps) simp
    finally show ?thesis using True by simp
  next
    case False
    have hd: "hd s \<noteq> CHR ''0''" using snoc.prems(3) False by (cases s) auto
    have all: "list_all isDigit s" using snoc.prems(2) by simp
    have ih: "digits (nat (numVal s)) = s" using snoc.IH False all hd by simp
    have pos: "0 < numVal s" using False all hd by (rule numVal_pos)
    define m where "m = nat (numVal s)"
    have m: "0 < m" "int m = numVal s" using pos by (simp_all add: m_def)
    have "numVal (s @ [c]) = int (10 * m + d)" using m d by (simp add: numVal_snoc)
    then have n: "nat (numVal (s @ [c])) = 10 * m + d" by simp
    have "digits (10 * m + d) =
        digits ((10 * m + d) div 10) @ [''0123456789'' ! ((10 * m + d) mod 10)]"
      using m(1) by (subst digits.simps) simp
    also have "(10 * m + d) div 10 = m" using d(1) by simp
    also have "(10 * m + d) mod 10 = d" using d(1) by simp
    finally show ?thesis using ih d(3) by (simp add: n m_def)
  qed
qed

lemma numVal_inject:
  assumes "isArrayIndex s" "isArrayIndex t" "numVal s = numVal t"
  shows "s = t"
proof -
  have "digits (nat (numVal s)) = s"
    using assms(1) by (intro canonical_digits) (simp_all add: isArrayIndex_def)
  moreover have "digits (nat (numVal t)) = t"
    using assms(2) by (intro canonical_digits) (simp_all add: isArrayIndex_def)
  ultimately show ?thesis using assms(3) by metis
qed

lemma sorted_key_unique:
  assumes "distinct xs" "distinct ys" "set xs = set ys"
    and "sorted (map f xs)" "sorted (map f ys)" "inj_on f (set xs)"
  shows "xs = ys"
proof -
  have "distinct (map f xs)" "distinct (map f ys)"
    using assms by (simp_all add: distinct_map)
  moreover have "set (map f xs) = set (map f ys)" using assms(3) by simp
  ultimately have "map f xs = map f ys"
    using assms(4,5) by (intro sorted_distinct_set_unique)
  then show ?thesis using assms(3,6) by (simp add: inj_on_map_eq_map)
qed

subsection \<open>The key order of the frequency object\<close>

lemma objectKeyOrder_parts: "objectKeyOrder ws = indexPart ws @ stringPart ws"
  by (simp add: objectKeyOrder_def indexPart_def stringPart_def)

lemma set_indexPart: "set (indexPart ws) = {w \<in> set ws. isArrayIndex w}"
  by (auto simp: indexPart_def)

lemma set_stringPart: "set (stringPart ws) = {w \<in> set ws. \<not> isArrayIndex w}"
  by (auto simp: stringPart_def set_firstOccurrences)

lemma distinct_indexPart: "distinct (indexPart ws)"
  by (simp add: indexPart_def)

lemma sorted_indexPart: "sorted (map numVal (indexPart ws))"
  by (simp add: indexPart_def)

lemma inj_on_indexPart: "inj_on numVal {w \<in> A. isArrayIndex w}"
  by (rule inj_onI) (simp add: numVal_inject)

lemma set_objectKeyOrder: "set (objectKeyOrder ws) = set ws"
  by (auto simp: objectKeyOrder_parts set_indexPart set_stringPart)

lemma distinct_objectKeyOrder: "distinct (objectKeyOrder ws)"
  by (auto simp: objectKeyOrder_parts distinct_indexPart stringPart_def
      distinct_firstOccurrences set_indexPart set_firstOccurrences)

lemma indexPart_snoc_same:
  "w \<in> set ws \<or> \<not> isArrayIndex w \<Longrightarrow> indexPart (ws @ [w]) = indexPart ws"
proof (rule sorted_key_unique [where f = numVal])
  assume "w \<in> set ws \<or> \<not> isArrayIndex w"
  then show "set (indexPart (ws @ [w])) = set (indexPart ws)"
    by (auto simp: set_indexPart)
  show "inj_on numVal (set (indexPart (ws @ [w])))"
    unfolding set_indexPart by (rule inj_on_indexPart)
qed (simp_all add: distinct_indexPart sorted_indexPart)

lemma indexPart_snoc_new:
  assumes "w \<notin> set ws" "isArrayIndex w"
  shows "indexPart (ws @ [w]) = insort_key numVal w (indexPart ws)"
proof (rule sorted_key_unique [where f = numVal])
  show "distinct (insort_key numVal w (indexPart ws))"
    using assms(1) by (simp add: distinct_insort distinct_indexPart set_indexPart)
  show "set (indexPart (ws @ [w])) = set (insort_key numVal w (indexPart ws))"
    using assms(2) by (auto simp: set_indexPart set_insort_key)
  show "sorted (map numVal (insort_key numVal w (indexPart ws)))"
    by (simp add: sorted_insort_key sorted_indexPart)
  show "inj_on numVal (set (indexPart (ws @ [w])))"
    unfolding set_indexPart by (rule inj_on_indexPart)
qed (simp_all add: distinct_indexPart sorted_indexPart)

lemma stringPart_snoc:
  "stringPart (ws @ [w]) =
     (if w \<in> set ws \<or> isArrayIndex w then stringPart ws else stringPart ws @ [w])"
  by (auto simp: stringPart_def firstOccurrences_snoc)

subsection \<open>Objects with number values\<close>

lemma map_of_counted:
  "map_of (counted c ks) w = (if w \<in> set ks then Some (JNum (c w)) else None)"
  by (induction ks) (auto simp: counted_def)

lemma keys_counted: "fst ` set (counted c ks) = set ks"
  by (force simp: counted_def)

lemma updateKey_counted:
  "distinct ks \<Longrightarrow> updateKey w (JNum n) (counted c ks) = counted (c(w := n)) ks"
proof (induction ks)
  case Nil
  show ?case by (simp add: counted_def)
next
  case (Cons k ks)
  show ?case
  proof (cases "k = w")
    case True
    then have "w \<notin> set ks" using Cons.prems by simp
    then have "counted (c(w := n)) ks = counted c ks" by (simp add: counted_def)
    then show ?thesis using True by (simp add: counted_def)
  next
    case False
    then show ?thesis using Cons by (simp add: counted_def)
  qed
qed

lemma insertIndexKey_counted:
  assumes "\<forall>k \<in> set ix. isArrayIndex k" "\<forall>k \<in> set ss. \<not> isArrayIndex k"
    and "w \<notin> set ix" "w \<notin> set ss"
  shows "insertIndexKey w (JNum n) (counted c (ix @ ss)) =
     counted (c(w := n)) (insort_key numVal w ix @ ss)"
  using assms
proof (induction ix)
  case Nil
  then show ?case by (cases ss) (auto simp: counted_def)
next
  case (Cons k ks)
  then show ?case by (auto simp: counted_def)
qed

lemma count_list_snoc:
  "count_list (ws @ [w]) = (count_list ws)(w := count_list ws w + 1)"
  by (rule ext) simp

lemma countWords_snoc:
  "countWords (ws @ [w]) = setProp (countWords ws) w (bumped (countWords ws) w)"
  by (simp add: countWords_def)

lemma countWords_counted:
  "''constructor'' \<notin> set ws \<Longrightarrow> ''__proto__'' \<notin> set ws \<Longrightarrow>
     countWords ws = counted (count_list ws) (objectKeyOrder ws)"
proof (induction ws rule: rev_induct)
  case Nil
  show ?case
    by (simp add: countWords_def counted_def objectKeyOrder_def)
next
  case (snoc w ws)
  let ?c = "count_list ws" and ?ks = "objectKeyOrder ws"
  let ?c' = "(count_list ws)(w := count_list ws w + 1)"
  have ih: "countWords ws = counted ?c ?ks" using snoc by simp
  have w: "w \<noteq> ''constructor''" "w \<noteq> ''__proto__''" using snoc.prems by auto
  have b: "bumped (counted ?c ?ks) w = JNum (?c w + 1)"
    using w by (simp add: bumped_def map_of_counted set_objectKeyOrder count_list_0_iff)
  have step: "countWords (ws @ [w]) = setProp (counted ?c ?ks) w (JNum (?c w + 1))"
    by (simp add: countWords_snoc ih b)
  have "setProp (counted ?c ?ks) w (JNum (?c w + 1)) = counted ?c' (objectKeyOrder (ws @ [w]))"
  proof (cases "w \<in> set ws")
    case True
    have "objectKeyOrder (ws @ [w]) = ?ks"
      using True by (simp add: objectKeyOrder_parts indexPart_snoc_same stringPart_snoc)
    moreover have "w \<in> fst ` set (counted ?c ?ks)"
      using True by (simp add: keys_counted set_objectKeyOrder)
    ultimately show ?thesis
      using w by (simp add: setProp_def updateKey_counted distinct_objectKeyOrder)
  next
    case new: False
    show ?thesis
    proof (cases "isArrayIndex w")
      case True
      have k: "objectKeyOrder (ws @ [w]) = insort_key numVal w (indexPart ws) @ stringPart ws"
        using new True by (simp add: objectKeyOrder_parts indexPart_snoc_new stringPart_snoc)
      have notkey: "w \<notin> fst ` set (counted ?c ?ks)"
        using new by (simp add: keys_counted set_objectKeyOrder)
      have "setProp (counted ?c ?ks) w (JNum (?c w + 1)) =
          insertIndexKey w (JNum (?c w + 1)) (counted ?c ?ks)"
        using notkey True w by (simp add: setProp_def)
      also have "\<dots> =
          insertIndexKey w (JNum (?c w + 1)) (counted ?c (indexPart ws @ stringPart ws))"
        by (simp only: objectKeyOrder_parts)
      also have "\<dots> = counted ?c' (insort_key numVal w (indexPart ws) @ stringPart ws)"
        using new by (intro insertIndexKey_counted) (auto simp: set_indexPart set_stringPart)
      also have "\<dots> = counted ?c' (objectKeyOrder (ws @ [w]))"
        by (simp only: k)
      finally show ?thesis .
    next
      case False
      have k: "objectKeyOrder (ws @ [w]) = ?ks @ [w]"
        using new False by (simp add: objectKeyOrder_parts indexPart_snoc_same stringPart_snoc)
      have notkey: "w \<notin> fst ` set (counted ?c ?ks)"
        using new by (simp add: keys_counted set_objectKeyOrder)
      have "w \<notin> set ?ks" using new by (simp add: set_objectKeyOrder)
      then have same: "counted ?c' ?ks = counted ?c ?ks"
        by (auto simp: counted_def)
      have "setProp (counted ?c ?ks) w (JNum (?c w + 1)) =
          counted ?c ?ks @ [(w, JNum (?c w + 1))]"
        using notkey False w by (simp add: setProp_def)
      also have "\<dots> = counted ?c' (?ks @ [w])"
        using same by (simp add: counted_def)
      finally show ?thesis by (simp only: k)
    qed
  qed
  then show ?case by (simp only: step count_list_snoc)
qed

subsection \<open>Sorting by frequency\<close>

lemma insort_key_map:
  "insort_key f (g x) (map g ys) = map g (insort_key (\<lambda>y. f (g y)) x ys)"
  by (induction ys) auto

lemma sort_key_map: "sort_key f (map g xs) = map g (sort_key (\<lambda>y. f (g y)) xs)"
  by (induction xs) (simp_all add: insort_key_map)

lemma sortStable_counted:
  "sortStable freqAfter (counted c ks) = counted c (sort_key (\<lambda>k. - int (c k)) ks)"
proof -
  let ?f = "\<lambda>p. - int (case snd p of JNum n \<Rightarrow> n | JStr s \<Rightarrow> 0)"
  have "sortStable freqAfter (counted c ks) = sort_key ?f (counted c ks)"
    by (rule sortStable_sort_key) (auto simp: counted_def)
  also have "\<dots> = counted c (sort_key (\<lambda>k. - int (c k)) ks)"
    by (simp add: counted_def sort_key_map)
  finally show ?thesis .
qed

lemma map_fst_take_counted: "map fst (take n (counted c ks)) = take n ks"
  by (simp add: counted_def take_map comp_def)

lemma extractKeywords_by_key_order:
  assumes "''constructor'' \<notin> set (keywordTokens text)"
    and "''__proto__'' \<notin> set (keywordTokens text)"
  shows "extractKeywords text = keywords_by_key_order text"
  using countWords_counted [OF assms]
  by (simp add: extractKeywords_def keywords_by_key_order_def Let_def sortStable_counted
      map_fst_take_counted)

lemma objectKeyOrder_no_index:
  "\<not> list_ex isArrayIndex ws \<Longrightarrow> objectKeyOrder ws = firstOccurrences ws"
proof -
  assume "\<not> list_ex isArrayIndex ws"
  then have n: "\<forall>w \<in> set ws. \<not> isArrayIndex w" by (simp add: list_ex_iff)
  then have "filter isArrayIndex ws = []" by (simp add: filter_empty_conv)
  moreover have "filter (\<lambda>w. \<not> isArrayIndex w) ws = ws" using n by (simp add: filter_id_conv)
  ultimately show ?thesis by (simp add: objectKeyOrder_def)
qed

text \<open>
  Claim C6, as stated, fails for a text with a numeral: the frequency object lists a key
  that is an array index before the other keys, so at equal frequency \<open>123\<close> comes before
  \<open>abc\<close>, which appears first.
\<close>

theorem numeral_first_counterexample:
  "extractKeywords ''abc 123'' = [''123'', ''abc'']
   \<and> spec_extract_keywords ''abc 123'' = [''abc'', ''123'']
   \<and> extractKeywords ''abc 123'' \<noteq> spec_extract_keywords ''abc 123''"
  by code_simp

text \<open>
  Claim C6, amended. For every text that has neither \<open>constructor\<close> nor \<open>__proto__\<close> among
  its tokens, extractKeywords returns the distinct tokens (the text in lower case, non-word
  characters replaced by spaces, split at white space, without the tokens of length at most
  2 and the stop words), sorted by descending frequency, ties broken by the key order of the
  frequency object (array indices first, in ascending numeric order, then the other tokens by
  first appearance), truncated to 20. Without a token that is an array index that is the
  order of the specification.
\<close>

theorem extractKeywords_key_order:
  assumes "''constructor'' \<notin> set (keywordTokens text)"
    and "''__proto__'' \<notin> set (keywordTokens text)"
  shows "extractKeywords text = keywords_by_key_order text
    \<and> (\<not> list_ex isArrayIndex (keywordTokens text) \<longrightarrow>
         extractKeywords text = spec_extract_keywords text)
    \<and> distinct (extractKeywords text)
    \<and> length (extractKeywords text) \<le> 20
    \<and> set (extractKeywords text) \<subseteq> set (keywordTokens text)
    \<and> sorted_wrt (\<lambda>a b. count_list (keywordTokens text) a \<ge> count_list (keywordTokens text) b)
         (extractKeywords text)"
proof (intro conjI impI)
  let ?ws = "keywordTokens text"
  let ?f = "\<lambda>w. - int (count_list ?ws w)"
  show eq: "extractKeywords text = keywords_by_key_order text"
    using assms by (rule extractKeywords_by_key_order)
  show "distinct (extractKeywords text)" by (rule distinct_extractKeywords)
  show "length (extractKeywords text) \<le> 20" by (rule length_extractKeywords)
  have "set (take 20 (sort_key ?f (objectKeyOrder ?ws))) \<subseteq> set (sort_key ?f (objectKeyOrder ?ws))"
    by (rule set_take_subset)
  then show "set (extractKeywords text) \<subseteq> set ?ws"
    by (simp add: eq keywords_by_key_order_def Let_def set_objectKeyOrder)
  have "sorted (map ?f (sort_key ?f (objectKeyOrder ?ws)))" by (rule sorted_sort_key)
  then have "sorted_wrt (\<lambda>a b. ?f a \<le> ?f b) (sort_key ?f (objectKeyOrder ?ws))"
    by (simp add: sorted_map)
  then have "sorted_wrt (\<lambda>a b. ?f a \<le> ?f b) (take 20 (sort_key ?f (objectKeyOrder ?ws)))"
    by (rule sorted_wrt_take)
  then show "sorted_wrt (\<lambda>a b. count_list ?ws a \<ge> count_list ?ws b) (extractKeywords text)"
    by (simp add: eq keywords_by_key_order_def Let_def)
  assume "\<not> list_ex isArrayIndex ?ws"
  then show "extractKeywords text = spec_extract_keywords text"
    by (simp add: eq keywords_by_key_order_def spec_extract_keywords_def Let_def
        objectKeyOrder_no_index)
qed

lemma example_tokens:
  "keywordTokens numeralText =
     [''cat'', ''cat'', ''sat'', ''dogs'', ''bark'', ''dogs'', ''dogs'', ''123'', ''cat'']"
  "keywordTokens plainText = [''cat'', ''sat'', ''dogs'', ''bark'', ''dogs'']"
  by code_simp+

lemma example_keywords:
  "keywords_by_key_order numeralText = [''cat'', ''dogs'', ''123'', ''sat'', ''bark'']"
  "spec_extract_keywords plainText = [''dogs'', ''cat'', ''sat'', ''bark'']"
  by code_simp+

lemma example_no_index: "\<not> list_ex isArrayIndex (keywordTokens plainText)"
  by code_simp

theorem extractKeywords_key_order_witness:
  "''constructor'' \<notin> set (keywordTokens numeralText)
   \<and> ''__proto__'' \<notin> set (keywordTokens numeralText)
   \<and> extractKeywords numeralText = [''cat'', ''dogs'', ''123'', ''sat'', ''bark'']
   \<and> ''constructor'' \<notin> set (keywordTokens plainText)
   \<and> ''__proto__'' \<notin> set (keywordTokens plainText)
   \<and> \<not> list_ex isArrayIndex (keywordTokens plainText)
   \<and> extractKeywords plainText = [''dogs'', ''cat'', ''sat'', ''bark'']"
proof -
  have n: "''constructor'' \<notin> set (keywordTokens numeralText)"
      "''__proto__'' \<notin> set (keywordTokens numeralText)"
    by (simp_all add: example_tokens)
  have p: "''constructor'' \<notin> set (keywordTokens plainText)"
      "''__proto__'' \<notin> set (keywordTokens plainText)"
    by (simp_all add: example_tokens)
  have a: "extractKeywords numeralText = keywords_by_key_order numeralText"
    using extractKeywords_key_order [OF n] by blast
  have b: "extractKeywords plainText = spec_extract_keywords plainText"
    using extractKeywords_key_order [OF p] example_no_index by blast
  show ?thesis
    unfolding a b example_keywords using n p example_no_index by simp
qed

end
